theory Spec2Isabelle
  imports Complex_Main
begin

section \<open>Survey service: data model\<close>

text \<open>
  The program is \<^verbatim>\<open>src/backend/server.js\<close>: an Express server that keeps surveys and
  their responses in one in-memory object \<^verbatim>\<open>DB\<close> and computes per-question summaries.
  Request bodies are whatever \<^verbatim>\<open>express.json()\<close> parsed, so questions and answers are
  arbitrary JSON values; the model keeps them as such.

  Numbers are IEEE doubles: a finite one is kept as the rational it denotes, beside
  \<^verbatim>\<open>NaN\<close> and the two infinities. Negative zero is identified with zero (no operation of
  the program tells them apart). Strings are lists of 8-bit code units.
\<close>

datatype jsnum = Fin rat | NaN | PInf | NInf

datatype jsval =
    JUndefined
  | JNull
  | JBool bool
  | JNum jsnum
  | JStr string
  | JArr "jsval list"
  | JObj "(string \<times> jsval) list"

datatype js_error = TypeError | RangeError

text \<open>
  Two conversions of the language are not re-implemented but taken as parameters:
  reading a string as a number (\<^verbatim>\<open>Number("...")\<close>) and printing a number that is not
  an integer of magnitude at most \<open>2\<^sup>5\<^sup>3\<close>. Every general theorem holds for all of them.
\<close>

record js_builtins =
  string_to_number :: "string \<Rightarrow> jsnum"
  other_to_string :: "rat \<Rightarrow> string"

subsection \<open>Doubles\<close>

definition is_int :: "rat \<Rightarrow> bool" where
  "is_int r = (of_int \<lfloor>r\<rfloor> = r)"

definition safe_int :: "rat \<Rightarrow> bool" where
  "safe_int r = (is_int r \<and> \<bar>r\<bar> \<le> 2 ^ 53)"

text \<open>
  \<open>m / 2\<^sup>j\<close> with an integer \<open>\<bar>m\<bar> \<le> 2\<^sup>5\<^sup>3\<close> and \<open>j \<le> k\<close>. With \<open>k = 1074\<close> every such
  number is a double (the smallest exponent of a double is \<open>-1074\<close>); the doubles that
  are not of this form are the integers above \<open>2\<^sup>5\<^sup>3\<close> in magnitude.
\<close>

fun dyadic :: "nat \<Rightarrow> rat \<Rightarrow> bool" where
  "dyadic 0 r = safe_int r"
| "dyadic (Suc k) r = (safe_int r \<or> dyadic k (2 * r))"

definition is_double :: "rat \<Rightarrow> bool" where
  "is_double r = dyadic 1074 r"

text \<open>
  Rounding to the nearest double, ties to the even significand. The significand of a
  double is an integer below \<open>2\<^sup>5\<^sup>3\<close> and its exponent lies between \<open>-1074\<close> and \<open>971\<close>.
  For a positive \<open>r\<close> the search runs on \<open>s = r \<cdot> 2\<^sup>1\<^sup>0\<^sup>7\<^sup>4\<close> and \<open>j\<close>, the exponent plus
  \<open>1074\<close>: the first \<open>j\<close> with \<open>s < 2\<^sup>5\<^sup>3\<^sup>+\<^sup>j\<close> gives the spacing \<open>2\<^sup>j\<close> of the doubles
  around \<open>s\<close>, and \<open>s\<close> is rounded to a multiple of it. A result of \<open>2\<^sup>1\<^sup>0\<^sup>2\<^sup>4\<close> or more is
  \<^verbatim>\<open>Infinity\<close>.
\<close>

definition half_even :: "rat \<Rightarrow> int" where
  "half_even x =
     (if x - of_int \<lfloor>x\<rfloor> < 1 / 2 then \<lfloor>x\<rfloor>
      else if 1 / 2 < x - of_int \<lfloor>x\<rfloor> then \<lfloor>x\<rfloor> + 1
      else if even \<lfloor>x\<rfloor> then \<lfloor>x\<rfloor> else \<lfloor>x\<rfloor> + 1)"

fun nearest :: "nat \<Rightarrow> nat \<Rightarrow> rat \<Rightarrow> jsnum" where
  "nearest 0 j s = PInf"
| "nearest (Suc k) j s =
     (if s < 2 ^ (53 + j)
      then (if (2::rat) ^ 1024 \<le> of_int (half_even (s / 2 ^ j)) * 2 ^ j / 2 ^ 1074 then PInf
            else Fin (of_int (half_even (s / 2 ^ j)) * 2 ^ j / 2 ^ 1074))
      else nearest k (Suc j) s)"

definition round_positive :: "rat \<Rightarrow> jsnum" where
  "round_positive r = nearest 2046 0 (r * 2 ^ 1074)"

text \<open>
  The double that stands for an exact value. A double of the form above is left
  alone, as rounding leaves every double alone.
\<close>

definition to_double :: "rat \<Rightarrow> jsnum" where
  "to_double r =
     (if is_double r then Fin r
      else if 0 < r then round_positive r
      else (case round_positive (- r) of Fin x \<Rightarrow> Fin (- x) | _ \<Rightarrow> NInf))"

subsection \<open>Arithmetic and comparison on numbers\<close>

fun num_neg :: "jsnum \<Rightarrow> jsnum" where
  "num_neg (Fin a) = Fin (- a)"
| "num_neg NaN = NaN"
| "num_neg PInf = NInf"
| "num_neg NInf = PInf"

text \<open>\<^verbatim>\<open>a + b\<close> and \<^verbatim>\<open>a - b\<close> on doubles: the exact sum, rounded.\<close>

fun num_add :: "jsnum \<Rightarrow> jsnum \<Rightarrow> jsnum" where
  "num_add NaN _ = NaN"
| "num_add _ NaN = NaN"
| "num_add (Fin a) (Fin b) = to_double (a + b)"
| "num_add PInf NInf = NaN"
| "num_add NInf PInf = NaN"
| "num_add PInf _ = PInf"
| "num_add NInf _ = NInf"
| "num_add (Fin a) PInf = PInf"
| "num_add (Fin a) NInf = NInf"

definition num_sub :: "jsnum \<Rightarrow> jsnum \<Rightarrow> jsnum" where
  "num_sub a b = num_add a (num_neg b)"

text \<open>\<^verbatim>\<open>a < b\<close>; false as soon as one side is \<^verbatim>\<open>NaN\<close>.\<close>

fun num_less :: "jsnum \<Rightarrow> jsnum \<Rightarrow> bool" where
  "num_less NaN _ = False"
| "num_less _ NaN = False"
| "num_less (Fin a) (Fin b) = (a < b)"
| "num_less NInf NInf = False"
| "num_less NInf _ = True"
| "num_less _ NInf = False"
| "num_less PInf _ = False"
| "num_less (Fin a) PInf = True"

text \<open>\<^verbatim>\<open>a >= b\<close>; again false on \<^verbatim>\<open>NaN\<close>, so it is not the negation of \<^verbatim>\<open>a < b\<close>.\<close>

fun num_ge :: "jsnum \<Rightarrow> jsnum \<Rightarrow> bool" where
  "num_ge NaN _ = False"
| "num_ge _ NaN = False"
| "num_ge (Fin a) (Fin b) = (b \<le> a)"
| "num_ge PInf _ = True"
| "num_ge _ NInf = True"
| "num_ge NInf _ = False"
| "num_ge (Fin a) PInf = False"

subsection \<open>Truthiness, property reads, strings\<close>

fun truthy :: "jsval \<Rightarrow> bool" where
  "truthy JUndefined = False"
| "truthy JNull = False"
| "truthy (JBool b) = b"
| "truthy (JNum (Fin r)) = (r \<noteq> 0)"
| "truthy (JNum NaN) = False"
| "truthy (JNum _) = True"
| "truthy (JStr s) = (s \<noteq> [])"
| "truthy (JArr _) = True"
| "truthy (JObj _) = True"

fun nullish :: "jsval \<Rightarrow> bool" where
  "nullish JUndefined = True"
| "nullish JNull = True"
| "nullish _ = False"

text \<open>
  \<^verbatim>\<open>v.name\<close> on a value that is neither \<^verbatim>\<open>null\<close> nor \<^verbatim>\<open>undefined\<close> (on those the read
  raises, which each caller writes out). The program reads only the names
  \<^verbatim>\<open>type\<close>, \<^verbatim>\<open>options\<close>, \<^verbatim>\<open>min\<close>, \<^verbatim>\<open>max\<close>, \<^verbatim>\<open>text\<close>, \<^verbatim>\<open>answer\<close>, \<^verbatim>\<open>title\<close>, \<^verbatim>\<open>questions\<close>
  and \<^verbatim>\<open>answers\<close> from JSON values; no built-in prototype defines one of them, so
  the read yields the object's own entry or \<^verbatim>\<open>undefined\<close>.
\<close>

fun get_field :: "jsval \<Rightarrow> string \<Rightarrow> jsval" where
  "get_field (JObj kvs) name = (case map_of kvs name of Some v \<Rightarrow> v | None \<Rightarrow> JUndefined)"
| "get_field _ name = JUndefined"

text \<open>\<^verbatim>\<open>a ?? d\<close> and \<^verbatim>\<open>a || d\<close>.\<close>

definition nullish_or :: "jsval \<Rightarrow> jsval \<Rightarrow> jsval" where
  "nullish_or a d = (if nullish a then d else a)"

definition falsy_or :: "jsval \<Rightarrow> jsval \<Rightarrow> jsval" where
  "falsy_or a d = (if truthy a then a else d)"

text \<open>
  \<^verbatim>\<open>String.prototype.trim\<close>: the white space and line terminators of ECMAScript that
  fit in one 8-bit code unit (TAB, LF, VT, FF, CR, SP, NBSP).
\<close>

definition is_ws :: "char \<Rightarrow> bool" where
  "is_ws c = (c \<in> set [CHR 0x09, CHR 0x0A, CHR 0x0B, CHR 0x0C, CHR 0x0D, CHR 0x20, CHR 0xA0])"

definition trim :: "string \<Rightarrow> string" where
  "trim s = rev (dropWhile is_ws (rev (dropWhile is_ws s)))"

text \<open>\<^verbatim>\<open>x.trim()\<close> on an arbitrary value: only strings have the method.\<close>

fun call_trim :: "jsval \<Rightarrow> js_error + string" where
  "call_trim (JStr s) = Inr (trim s)"
| "call_trim _ = Inl TypeError"

text \<open>\<^verbatim>\<open>xs.indexOf(a)\<close>: the first position holding \<open>a\<close>; \<open>None\<close> stands for \<open>-1\<close>.\<close>

fun index_of :: "'a list \<Rightarrow> 'a \<Rightarrow> nat option" where
  "index_of [] a = None"
| "index_of (x # xs) a =
     (if x = a then Some 0 else case index_of xs a of None \<Rightarrow> None | Some i \<Rightarrow> Some (Suc i))"

subsection \<open>Printing numbers and converting values to numbers\<close>

fun dec_nat :: "nat \<Rightarrow> string" where
  "dec_nat n =
     (if n < 10 then [''0123456789'' ! n]
      else dec_nat (n div 10) @ [''0123456789'' ! (n mod 10)])"

definition dec_int :: "int \<Rightarrow> string" where
  "dec_int i = (if i < 0 then CHR ''-'' # dec_nat (nat (- i)) else dec_nat (nat i))"

text \<open>
  \<^verbatim>\<open>String(n)\<close> for a number. An integer of magnitude at most \<open>2\<^sup>5\<^sup>3\<close> prints as its
  decimal digits.
\<close>

fun num_to_string :: "js_builtins \<Rightarrow> jsnum \<Rightarrow> string" where
  "num_to_string P NaN = ''NaN''"
| "num_to_string P PInf = ''Infinity''"
| "num_to_string P NInf = ''-Infinity''"
| "num_to_string P (Fin r) =
     (if safe_int r then dec_int \<lfloor>r\<rfloor> else other_to_string P r)"

text \<open>
  \<^verbatim>\<open>String(v)\<close> for a JSON value. An array prints its elements joined by commas,
  \<^verbatim>\<open>null\<close> and \<^verbatim>\<open>undefined\<close> elements as nothing. A plain object prints as
  \<^verbatim>\<open>[object Object]\<close> through the inherited \<^verbatim>\<open>toString\<close>; when the JSON gave it an own
  entry \<^verbatim>\<open>toString\<close>, that entry is not callable and the conversion raises.
\<close>

fun to_string :: "js_builtins \<Rightarrow> jsval \<Rightarrow> js_error + string"
  and join_elems :: "js_builtins \<Rightarrow> jsval list \<Rightarrow> js_error + string" where
  "to_string P JUndefined = Inr ''undefined''"
| "to_string P JNull = Inr ''null''"
| "to_string P (JBool b) = Inr (if b then ''true'' else ''false'')"
| "to_string P (JNum n) = Inr (num_to_string P n)"
| "to_string P (JStr s) = Inr s"
| "to_string P (JArr xs) = join_elems P xs"
| "to_string P (JObj kvs) =
     (if map_of kvs ''toString'' = None then Inr ''[object Object]'' else Inl TypeError)"
| "join_elems P [] = Inr []"
| "join_elems P (x # xs) =
     (case (if nullish x then Inr [] else to_string P x) of
        Inl e \<Rightarrow> Inl e
      | Inr s \<Rightarrow>
          (if xs = [] then Inr s
           else case join_elems P xs of Inl e \<Rightarrow> Inl e | Inr t \<Rightarrow> Inr (s @ '','' @ t)))"

text \<open>
  \<^verbatim>\<open>Number(v)\<close>: arrays and objects go through their string. A number comes out as a
  double also when the value holds a rational that is none, such as the \<open>1/10\<close> of the
  JSON text \<^verbatim>\<open>0.1\<close>.
\<close>

fun to_number :: "js_builtins \<Rightarrow> jsval \<Rightarrow> js_error + jsnum" where
  "to_number P JUndefined = Inr NaN"
| "to_number P JNull = Inr (Fin 0)"
| "to_number P (JBool b) = Inr (Fin (if b then 1 else 0))"
| "to_number P (JNum (Fin r)) = Inr (to_double r)"
| "to_number P (JNum n) = Inr n"
| "to_number P (JStr s) = Inr (string_to_number P s)"
| "to_number P v =
     (case to_string P v of Inl e \<Rightarrow> Inl e | Inr s \<Rightarrow> Inr (string_to_number P s))"

section \<open>The store and the request handlers\<close>

text \<open>
  \<^verbatim>\<open>let DB = { surveys: {}, responses: {} }\<close>. A survey is \<^verbatim>\<open>{ id, title, questions }\<close>,
  a stored response is \<^verbatim>\<open>{ ts, answers }\<close>; \<^verbatim>\<open>questions\<close> and \<^verbatim>\<open>answers\<close> passed
  \<^verbatim>\<open>Array.isArray\<close> before they were stored.
\<close>

record survey =
  sid :: string
  title :: jsval
  questions :: "jsval list"

record response =
  ts :: int
  answers :: "jsval list"

record db =
  surveys :: "string \<rightharpoonup> survey"
  responses :: "string \<rightharpoonup> response list"

definition empty_db :: db where
  "empty_db = \<lparr>surveys = Map.empty, responses = Map.empty\<rparr>"

text \<open>
  \<^verbatim>\<open>DB.surveys\<close> and \<^verbatim>\<open>DB.responses\<close> are plain objects, so \<^verbatim>\<open>DB.surveys[id]\<close> finds the
  object's own entry, or else what \<^verbatim>\<open>Object.prototype\<close> defines under that name
  (a function, or for \<^verbatim>\<open>__proto__\<close> the prototype object: truthy in each case),
  or else \<^verbatim>\<open>undefined\<close>.
\<close>

definition object_prototype_names :: "string list" where
  "object_prototype_names =
     [''constructor'', ''__proto__'', ''hasOwnProperty'', ''isPrototypeOf'',
      ''propertyIsEnumerable'', ''toLocaleString'', ''toString'', ''valueOf'',
      ''__defineGetter__'', ''__defineSetter__'', ''__lookupGetter__'', ''__lookupSetter__'']"

datatype 'a slot = Own 'a | Inherited | Missing

definition plain_get :: "(string \<rightharpoonup> 'a) \<Rightarrow> string \<Rightarrow> 'a slot" where
  "plain_get m k =
     (case m k of
        Some v \<Rightarrow> Own v
      | None \<Rightarrow> if k \<in> set object_prototype_names then Inherited else Missing)"

text \<open>
  What a handler does with the request: a JSON reply, \<^verbatim>\<open>400\<close> with a reason, \<^verbatim>\<open>404\<close>, or
  an exception that leaves the handler.
\<close>

datatype 'a reply = Ok 'a | BadRequest string | NotFound | Threw js_error

text \<open>
  \<^verbatim>\<open>POST /api/surveys\<close>. The fresh identifier \<^verbatim>\<open>uuidv4().slice(0, 8)\<close> is the argument
  \<open>new_id\<close>.
\<close>

definition create_survey :: "db \<Rightarrow> jsval \<Rightarrow> string \<Rightarrow> string reply \<times> db" where
  "create_survey d body new_id =
     (let b = falsy_or body (JObj []) in
      case get_field b ''questions'' of
        JArr qs \<Rightarrow>
          (Ok new_id,
           d\<lparr>surveys := (surveys d)(new_id \<mapsto>
                \<lparr>sid = new_id,
                 title = falsy_or (get_field b ''title'') (JStr ''Untitled''),
                 questions = qs\<rparr>),
             responses := (responses d)(new_id \<mapsto> [])\<rparr>)
      | _ \<Rightarrow> (BadRequest ''questions required'', d))"

text \<open>
  \<^verbatim>\<open>POST /api/surveys/:id/responses\<close>. \<open>now\<close> is \<^verbatim>\<open>Date.now()\<close>. The guard is
  \<^verbatim>\<open>if (!DB.surveys[id])\<close>, so an inherited entry passes it; \<^verbatim>\<open>DB.responses[id].push\<close>
  is a call of \<^verbatim>\<open>undefined\<close> unless \<^verbatim>\<open>DB.responses\<close> has an own array under \<open>id\<close>.
\<close>

definition submit_response :: "db \<Rightarrow> string \<Rightarrow> jsval \<Rightarrow> int \<Rightarrow> unit reply \<times> db" where
  "submit_response d i body now =
     (case plain_get (surveys d) i of
        Missing \<Rightarrow> (NotFound, d)
      | _ \<Rightarrow>
          (case get_field (falsy_or body (JObj [])) ''answers'' of
             JArr ans \<Rightarrow>
               (case plain_get (responses d) i of
                  Own rs \<Rightarrow>
                    (Ok (), d\<lparr>responses := (responses d)(i \<mapsto> rs @ [\<lparr>ts = now, answers = ans\<rparr>])\<rparr>)
                | _ \<Rightarrow> (Threw TypeError, d))
           | _ \<Rightarrow> (BadRequest ''answers required'', d)))"

section \<open>The analytics aggregator\<close>

record bin =
  label :: string
  count :: int

datatype summary =
    Mcq jsval "string list" "int list"
  | Scale jsval "bin list" jsnum jsnum
  | Text jsval int

text \<open>A loop whose body may raise: the first exception ends it.\<close>

fun for_each :: "('s \<Rightarrow> 'a \<Rightarrow> 'e + 's) \<Rightarrow> 's \<Rightarrow> 'a list \<Rightarrow> 'e + 's" where
  "for_each f s [] = Inr s"
| "for_each f s (x # xs) = (case f s x of Inl e \<Rightarrow> Inl e | Inr s' \<Rightarrow> for_each f s' xs)"

fun map_e :: "('a \<Rightarrow> 'e + 'b) \<Rightarrow> 'a list \<Rightarrow> 'e + 'b list" where
  "map_e f [] = Inr []"
| "map_e f (x # xs) =
     (case f x of
        Inl e \<Rightarrow> Inl e
      | Inr y \<Rightarrow> (case map_e f xs of Inl e \<Rightarrow> Inl e | Inr ys \<Rightarrow> Inr (y # ys)))"

text \<open>\<^verbatim>\<open>r.answers[qi]?.answer\<close>: \<^verbatim>\<open>undefined\<close> past the end and on a \<^verbatim>\<open>null\<close> entry.\<close>

definition answer_at :: "response \<Rightarrow> nat \<Rightarrow> jsval" where
  "answer_at r qi =
     (if qi < length (answers r)
      then (if nullish (answers r ! qi) then JUndefined else get_field (answers r ! qi) ''answer'')
      else JUndefined)"

subsection \<open>Multiple choice\<close>

text \<open>\<^verbatim>\<open>(q.options || []).map(o => (o || 'Option').trim())\<close>\<close>

definition mcq_labels :: "jsval \<Rightarrow> js_error + string list" where
  "mcq_labels q =
     (case falsy_or (get_field q ''options'') (JArr []) of
        JArr opts \<Rightarrow> map_e (\<lambda>opt. call_trim (falsy_or opt (JStr ''Option''))) opts
      | _ \<Rightarrow> Inl TypeError)"

text \<open>The body of \<^verbatim>\<open>R.forEach\<close> in the \<^verbatim>\<open>mcq\<close> branch.\<close>

definition mcq_tally :: "string list \<Rightarrow> nat \<Rightarrow> int list \<Rightarrow> response \<Rightarrow> js_error + int list" where
  "mcq_tally labels qi counts r =
     (case call_trim (falsy_or (answer_at r qi) (JStr [])) of
        Inl e \<Rightarrow> Inl e
      | Inr a \<Rightarrow>
          (case index_of labels a of
             None \<Rightarrow> Inr counts
           | Some idx \<Rightarrow> Inr (counts[idx := counts ! idx + 1])))"

definition mcq_summary :: "response list \<Rightarrow> jsval \<Rightarrow> nat \<Rightarrow> js_error + summary" where
  "mcq_summary R q qi =
     (case mcq_labels q of
        Inl e \<Rightarrow> Inl e
      | Inr labels \<Rightarrow>
          (case for_each (mcq_tally labels qi) (map (\<lambda>_. 0) labels) R of
             Inl e \<Rightarrow> Inl e
           | Inr counts \<Rightarrow> Inr (Mcq (get_field q ''text'') labels counts)))"

subsection \<open>Scale\<close>

text \<open>
  \<^verbatim>\<open>Array.from({ length: n }, ...)\<close>: the length is truncated, a negative one or \<^verbatim>\<open>NaN\<close>
  counts as zero, and one above \<open>2\<^sup>3\<^sup>2 - 1\<close> is refused with a \<^verbatim>\<open>RangeError\<close>.
\<close>

fun array_from_length :: "jsnum \<Rightarrow> js_error + nat" where
  "array_from_length NaN = Inr 0"
| "array_from_length NInf = Inr 0"
| "array_from_length PInf = Inl RangeError"
| "array_from_length (Fin r) =
     (if \<lfloor>r\<rfloor> \<le> 0 then Inr 0
      else if \<lfloor>r\<rfloor> > 2 ^ 32 - 1 then Inl RangeError
      else Inr (nat \<lfloor>r\<rfloor>))"

definition fresh_bins :: "js_builtins \<Rightarrow> jsnum \<Rightarrow> nat \<Rightarrow> bin list" where
  "fresh_bins P mn n =
     map (\<lambda>i. \<lparr>label = num_to_string P (num_add mn (Fin (of_nat i))), count = 0\<rparr>) [0..<n]"

text \<open>
  The body of \<^verbatim>\<open>R.forEach\<close> in the \<^verbatim>\<open>scale\<close> branch. \<^verbatim>\<open>bins[bi]\<close> with a \<open>bi\<close> that
  passed the range test but is not an integer is \<^verbatim>\<open>undefined\<close>, and \<^verbatim>\<open>.count++\<close> on it
  raises.
\<close>

definition scale_tally ::
    "js_builtins \<Rightarrow> jsnum \<Rightarrow> nat \<Rightarrow> bin list \<Rightarrow> response \<Rightarrow> js_error + bin list" where
  "scale_tally P mn qi bins r =
     (case to_number P (answer_at r qi) of
        Inl e \<Rightarrow> Inl e
      | Inr v \<Rightarrow>
          (let bi = num_sub v mn in
           if num_ge bi (Fin 0) \<and> num_less bi (Fin (of_nat (length bins)))
           then (case bi of
                   Fin x \<Rightarrow>
                     (if is_int x
                      then Inr (bins[nat \<lfloor>x\<rfloor> :=
                                  (bins ! nat \<lfloor>x\<rfloor>)\<lparr>count := count (bins ! nat \<lfloor>x\<rfloor>) + 1\<rparr>])
                      else Inl TypeError)
                 | _ \<Rightarrow> Inl TypeError)
           else Inr bins))"

text \<open>
  An earlier copy of the handler (the first part of \<^verbatim>\<open>src/unnamed/part_000\<close>) has the
  same loop with \<^verbatim>\<open>const bi = Math.round(v) - min\<close>. \<^verbatim>\<open>Math.round\<close> rounds halves
  upwards; on a double its result is a double.
\<close>

fun math_round :: "jsnum \<Rightarrow> jsnum" where
  "math_round (Fin r) = Fin (of_int \<lfloor>r + 1 / 2\<rfloor>)"
| "math_round n = n"

definition scale_tally_rounding ::
    "js_builtins \<Rightarrow> jsnum \<Rightarrow> nat \<Rightarrow> bin list \<Rightarrow> response \<Rightarrow> js_error + bin list" where
  "scale_tally_rounding P mn qi bins r =
     (case to_number P (answer_at r qi) of
        Inl e \<Rightarrow> Inl e
      | Inr v \<Rightarrow>
          (let bi = num_sub (math_round v) mn in
           if num_ge bi (Fin 0) \<and> num_less bi (Fin (of_nat (length bins)))
           then (case bi of
                   Fin x \<Rightarrow>
                     (if is_int x
                      then Inr (bins[nat \<lfloor>x\<rfloor> :=
                                  (bins ! nat \<lfloor>x\<rfloor>)\<lparr>count := count (bins ! nat \<lfloor>x\<rfloor>) + 1\<rparr>])
                      else Inl TypeError)
                 | _ \<Rightarrow> Inl TypeError)
           else Inr bins))"

definition scale_summary ::
    "js_builtins \<Rightarrow> response list \<Rightarrow> jsval \<Rightarrow> nat \<Rightarrow> js_error + summary" where
  "scale_summary P R q qi =
     (case to_number P (nullish_or (get_field q ''min'') (JNum (Fin 1))) of
        Inl e \<Rightarrow> Inl e
      | Inr mn \<Rightarrow>
     (case to_number P (nullish_or (get_field q ''max'') (JNum (Fin 5))) of
        Inl e \<Rightarrow> Inl e
      | Inr mx \<Rightarrow>
     (case array_from_length (num_add (num_sub mx mn) (Fin 1)) of
        Inl e \<Rightarrow> Inl e
      | Inr n \<Rightarrow>
     (case for_each (scale_tally P mn qi) (fresh_bins P mn n) R of
        Inl e \<Rightarrow> Inl e
      | Inr bins \<Rightarrow> Inr (Scale (get_field q ''text'') bins mn mx)))))"

subsection \<open>Free text, and the dispatch on the question\<close>

text \<open>\<^verbatim>\<open>R.reduce((n, r) => (r.answers[qi]?.answer ? n + 1 : n), 0)\<close>\<close>

definition text_count :: "response list \<Rightarrow> nat \<Rightarrow> int" where
  "text_count R qi = foldl (\<lambda>n r. if truthy (answer_at r qi) then n + 1 else n) 0 R"

text \<open>The callback of \<^verbatim>\<open>s.questions.map\<close>; \<^verbatim>\<open>q.type\<close> raises on \<^verbatim>\<open>null\<close>.\<close>

definition summarize ::
    "js_builtins \<Rightarrow> response list \<Rightarrow> jsval \<Rightarrow> nat \<Rightarrow> js_error + summary" where
  "summarize P R q qi =
     (if nullish q then Inl TypeError
      else if get_field q ''type'' = JStr ''mcq'' then mcq_summary R q qi
      else if get_field q ''type'' = JStr ''scale'' then scale_summary P R q qi
      else Inr (Text (get_field q ''text'') (text_count R qi)))"

definition analytics ::
    "js_builtins \<Rightarrow> jsval list \<Rightarrow> response list \<Rightarrow> js_error + summary list" where
  "analytics P qs R = map_e (\<lambda>(q, qi). summarize P R q qi) (zip qs [0..<length qs])"

text \<open>
  \<^verbatim>\<open>GET /api/surveys/:id/analytics\<close>. With an inherited entry for \<^verbatim>\<open>s\<close> the read
  \<^verbatim>\<open>s.questions\<close> is \<^verbatim>\<open>undefined\<close> and \<^verbatim>\<open>.map\<close> raises. \<^verbatim>\<open>DB.responses[id] || []\<close> is the
  stored array, the empty array, or an inherited value without \<^verbatim>\<open>forEach\<close> and
  \<^verbatim>\<open>reduce\<close>: then the first question raises, at the latest when it reaches its loop.
\<close>

definition get_analytics :: "js_builtins \<Rightarrow> db \<Rightarrow> string \<Rightarrow> summary list reply \<times> db" where
  "get_analytics P d i =
     (case plain_get (surveys d) i of
        Missing \<Rightarrow> (NotFound, d)
      | Inherited \<Rightarrow> (Threw TypeError, d)
      | Own s \<Rightarrow>
          (case plain_get (responses d) i of
             Inherited \<Rightarrow>
               (case questions s of
                  [] \<Rightarrow> (Ok [], d)
                | q # _ \<Rightarrow>
                    (Threw (case summarize P [] q 0 of Inl e \<Rightarrow> e | Inr _ \<Rightarrow> TypeError), d))
           | Own R \<Rightarrow>
               (case analytics P (questions s) R of
                  Inl e \<Rightarrow> (Threw e, d)
                | Inr out \<Rightarrow> (Ok out, d))
           | Missing \<Rightarrow>
               (case analytics P (questions s) [] of
                  Inl e \<Rightarrow> (Threw e, d)
                | Inr out \<Rightarrow> (Ok out, d))))"

section \<open>The analytics handler on a heap\<close>

text \<open>
  In the program the store and the arrays that the handler fills live on one heap, and
  \<^verbatim>\<open>counts[idx]++\<close> and \<^verbatim>\<open>bins[bi].count++\<close> write into objects. To see which objects are
  written, the handler is run here on an explicit heap: a list of cells, an address
  being a position in it and a new object being appended. \<^verbatim>\<open>DB.surveys\<close> and
  \<^verbatim>\<open>DB.responses\<close> map identifiers to the addresses of the survey objects and of the
  response arrays. The handler creates \<^verbatim>\<open>counts\<close> (by \<^verbatim>\<open>labels.map\<close>), \<^verbatim>\<open>bins\<close> and one
  object per bin (by \<^verbatim>\<open>Array.from\<close> with a callback that builds an object literal); these
  are the objects it writes to. \<^verbatim>\<open>labels\<close> and the reply are created too, but never
  written after their creation, and stay values.
\<close>

type_synonym addr = nat

datatype cell =
    Survey_cell survey
  | Responses_cell "response list"
  | Counts_cell "int list"
  | Bins_cell "addr list"
  | Bin_cell bin

record store =
  heap :: "cell list"
  survey_table :: "string \<rightharpoonup> addr"
  response_table :: "string \<rightharpoonup> addr"

definition alloc :: "cell list \<Rightarrow> cell \<Rightarrow> addr \<times> cell list" where
  "alloc h c = (length h, h @ [c])"

definition cell_at :: "cell list \<Rightarrow> addr \<Rightarrow> cell option" where
  "cell_at h a = (if a < length h then Some (h ! a) else None)"

text \<open>\<^verbatim>\<open>R.forEach\<close> with a body that writes to the heap and may raise.\<close>

fun each_on_heap ::
    "(cell list \<Rightarrow> 'a \<Rightarrow> js_error option \<times> cell list) \<Rightarrow> cell list \<Rightarrow> 'a list
      \<Rightarrow> js_error option \<times> cell list" where
  "each_on_heap f h [] = (None, h)"
| "each_on_heap f h (x # xs) =
     (case f h x of
        (Some e, h') \<Rightarrow> (Some e, h')
      | (None, h') \<Rightarrow> each_on_heap f h' xs)"

text \<open>The \<^verbatim>\<open>mcq\<close> loop body; \<open>c\<close> is the address of \<^verbatim>\<open>counts\<close>.\<close>

definition mcq_tally_heap ::
    "string list \<Rightarrow> nat \<Rightarrow> addr \<Rightarrow> cell list \<Rightarrow> response \<Rightarrow> js_error option \<times> cell list" where
  "mcq_tally_heap labels qi c h r =
     (case call_trim (falsy_or (answer_at r qi) (JStr [])) of
        Inl e \<Rightarrow> (Some e, h)
      | Inr a \<Rightarrow>
          (case index_of labels a of
             None \<Rightarrow> (None, h)
           | Some idx \<Rightarrow>
               (case cell_at h c of
                  Some (Counts_cell cs) \<Rightarrow> (None, h[c := Counts_cell (cs[idx := cs ! idx + 1])])
                | _ \<Rightarrow> (Some TypeError, h))))"

definition mcq_summary_heap ::
    "response list \<Rightarrow> jsval \<Rightarrow> nat \<Rightarrow> cell list \<Rightarrow> (js_error + summary) \<times> cell list" where
  "mcq_summary_heap R q qi h =
     (case mcq_labels q of
        Inl e \<Rightarrow> (Inl e, h)
      | Inr labels \<Rightarrow>
          (case alloc h (Counts_cell (map (\<lambda>_. 0) labels)) of
             (c, h1) \<Rightarrow>
               (case each_on_heap (mcq_tally_heap labels qi c) h1 R of
                  (Some e, h2) \<Rightarrow> (Inl e, h2)
                | (None, h2) \<Rightarrow>
                    (case cell_at h2 c of
                       Some (Counts_cell cs) \<Rightarrow> (Inr (Mcq (get_field q ''text'') labels cs), h2)
                     | _ \<Rightarrow> (Inl TypeError, h2)))))"

text \<open>One new object per bin, then the array that holds their addresses.\<close>

fun alloc_bins :: "cell list \<Rightarrow> bin list \<Rightarrow> addr list \<times> cell list" where
  "alloc_bins h [] = ([], h)"
| "alloc_bins h (b # bs) =
     (case alloc h (Bin_cell b) of
        (a, h1) \<Rightarrow> (case alloc_bins h1 bs of (as, h2) \<Rightarrow> (a # as, h2)))"

fun read_bins :: "cell list \<Rightarrow> addr list \<Rightarrow> bin list option" where
  "read_bins h [] = Some []"
| "read_bins h (a # as) =
     (case cell_at h a of
        Some (Bin_cell b) \<Rightarrow> (case read_bins h as of Some bs \<Rightarrow> Some (b # bs) | None \<Rightarrow> None)
      | _ \<Rightarrow> None)"

text \<open>The \<^verbatim>\<open>scale\<close> loop body; \<open>b\<close> is the address of \<^verbatim>\<open>bins\<close>.\<close>

definition scale_tally_heap ::
    "js_builtins \<Rightarrow> jsnum \<Rightarrow> nat \<Rightarrow> addr \<Rightarrow> cell list \<Rightarrow> response
      \<Rightarrow> js_error option \<times> cell list" where
  "scale_tally_heap P mn qi b h r =
     (case to_number P (answer_at r qi) of
        Inl e \<Rightarrow> (Some e, h)
      | Inr v \<Rightarrow>
          (case cell_at h b of
             Some (Bins_cell as) \<Rightarrow>
               (let bi = num_sub v mn in
                if num_ge bi (Fin 0) \<and> num_less bi (Fin (of_nat (length as)))
                then (case bi of
                        Fin x \<Rightarrow>
                          (if is_int x
                           then (case cell_at h (as ! nat \<lfloor>x\<rfloor>) of
                                   Some (Bin_cell bn) \<Rightarrow>
                                     (None, h[as ! nat \<lfloor>x\<rfloor> := Bin_cell (bn\<lparr>count := count bn + 1\<rparr>)])
                                 | _ \<Rightarrow> (Some TypeError, h))
                           else (Some TypeError, h))
                      | _ \<Rightarrow> (Some TypeError, h))
                else (None, h))
           | _ \<Rightarrow> (Some TypeError, h)))"

definition scale_summary_heap ::
    "js_builtins \<Rightarrow> response list \<Rightarrow> jsval \<Rightarrow> nat \<Rightarrow> cell list
      \<Rightarrow> (js_error + summary) \<times> cell list" where
  "scale_summary_heap P R q qi h =
     (case to_number P (nullish_or (get_field q ''min'') (JNum (Fin 1))) of
        Inl e \<Rightarrow> (Inl e, h)
      | Inr mn \<Rightarrow>
     (case to_number P (nullish_or (get_field q ''max'') (JNum (Fin 5))) of
        Inl e \<Rightarrow> (Inl e, h)
      | Inr mx \<Rightarrow>
     (case array_from_length (num_add (num_sub mx mn) (Fin 1)) of
        Inl e \<Rightarrow> (Inl e, h)
      | Inr n \<Rightarrow>
     (case alloc_bins h (fresh_bins P mn n) of
        (as, h1) \<Rightarrow>
     (case alloc h1 (Bins_cell as) of
        (b, h2) \<Rightarrow>
     (case each_on_heap (scale_tally_heap P mn qi b) h2 R of
        (Some e, h3) \<Rightarrow> (Inl e, h3)
      | (None, h3) \<Rightarrow>
          (case cell_at h3 b of
             Some (Bins_cell as') \<Rightarrow>
               (case read_bins h3 as' of
                  Some bins \<Rightarrow> (Inr (Scale (get_field q ''text'') bins mn mx), h3)
                | None \<Rightarrow> (Inl TypeError, h3))
           | _ \<Rightarrow> (Inl TypeError, h3))))))))"

definition summarize_heap ::
    "js_builtins \<Rightarrow> response list \<Rightarrow> jsval \<Rightarrow> nat \<Rightarrow> cell list
      \<Rightarrow> (js_error + summary) \<times> cell list" where
  "summarize_heap P R q qi h =
     (if nullish q then (Inl TypeError, h)
      else if get_field q ''type'' = JStr ''mcq'' then mcq_summary_heap R q qi h
      else if get_field q ''type'' = JStr ''scale'' then scale_summary_heap P R q qi h
      else (Inr (Text (get_field q ''text'') (text_count R qi)), h))"

fun map_on_heap ::
    "(cell list \<Rightarrow> 'a \<Rightarrow> (js_error + 'b) \<times> cell list) \<Rightarrow> cell list \<Rightarrow> 'a list
      \<Rightarrow> (js_error + 'b list) \<times> cell list" where
  "map_on_heap f h [] = (Inr [], h)"
| "map_on_heap f h (x # xs) =
     (case f h x of
        (Inl e, h1) \<Rightarrow> (Inl e, h1)
      | (Inr y, h1) \<Rightarrow>
          (case map_on_heap f h1 xs of
             (Inl e, h2) \<Rightarrow> (Inl e, h2)
           | (Inr ys, h2) \<Rightarrow> (Inr (y # ys), h2)))"

definition analytics_heap ::
    "js_builtins \<Rightarrow> jsval list \<Rightarrow> response list \<Rightarrow> cell list
      \<Rightarrow> (js_error + summary list) \<times> cell list" where
  "analytics_heap P qs R h =
     map_on_heap (\<lambda>h (q, qi). summarize_heap P R q qi h) h (zip qs [0..<length qs])"

definition run_analytics ::
    "js_builtins \<Rightarrow> store \<Rightarrow> jsval list \<Rightarrow> response list \<Rightarrow> summary list reply \<times> store" where
  "run_analytics P st qs R =
     (case analytics_heap P qs R (heap st) of
        (Inl e, h) \<Rightarrow> (Threw e, st\<lparr>heap := h\<rparr>)
      | (Inr out, h) \<Rightarrow> (Ok out, st\<lparr>heap := h\<rparr>))"

text \<open>
  \<^verbatim>\<open>GET /api/surveys/:id/analytics\<close> on the heap, branch for branch as \<open>get_analytics\<close>.
  A table entry whose address holds no survey object (no response array) is not a
  state the program reaches; the handler is made to raise there.
\<close>

definition get_analytics_heap ::
    "js_builtins \<Rightarrow> store \<Rightarrow> string \<Rightarrow> summary list reply \<times> store" where
  "get_analytics_heap P st i =
     (case plain_get (survey_table st) i of
        Missing \<Rightarrow> (NotFound, st)
      | Inherited \<Rightarrow> (Threw TypeError, st)
      | Own sa \<Rightarrow>
          (case cell_at (heap st) sa of
             Some (Survey_cell s) \<Rightarrow>
               (case plain_get (response_table st) i of
                  Inherited \<Rightarrow>
                    (case questions s of
                       [] \<Rightarrow> (Ok [], st)
                     | q # _ \<Rightarrow>
                         (case summarize_heap P [] q 0 (heap st) of
                            (Inl e, h) \<Rightarrow> (Threw e, st\<lparr>heap := h\<rparr>)
                          | (Inr _, h) \<Rightarrow> (Threw TypeError, st\<lparr>heap := h\<rparr>)))
                | Own ra \<Rightarrow>
                    (case cell_at (heap st) ra of
                       Some (Responses_cell R) \<Rightarrow> run_analytics P st (questions s) R
                     | _ \<Rightarrow> (Threw TypeError, st))
                | Missing \<Rightarrow> run_analytics P st (questions s) [])
           | _ \<Rightarrow> (Threw TypeError, st)))"

text \<open>
  An instance of the two conversions for closed examples. None of the examples below
  converts a string to a number or prints a number that is not a small integer, so
  each has the same value under every instance.
\<close>

definition no_conversions :: js_builtins where
  "no_conversions = \<lparr>string_to_number = (\<lambda>_. NaN), other_to_string = (\<lambda>_. [])\<rparr>"

section \<open>Numbers that are computed exactly\<close>

lemma dyadic_safe_int: "safe_int r \<Longrightarrow> dyadic k r"
  by (cases k) simp_all

lemma to_double_safe_int: "safe_int r \<Longrightarrow> to_double r = Fin r"
  by (simp add: to_double_def is_double_def dyadic_safe_int)

lemma to_double_half: "safe_int (2 * r) \<Longrightarrow> to_double r = Fin r"
proof -
  assume h: "safe_int (2 * r)"
  have e: "(1074::nat) = Suc 1073" by simp
  have "dyadic 1073 (2 * r)" using h by (rule dyadic_safe_int)
  then have "dyadic (Suc 1073) r" using dyadic.simps(2) [of 1073 r] by blast
  then have "is_double r" unfolding is_double_def e .
  then show ?thesis by (simp add: to_double_def)
qed

text \<open>Rounding takes no value of at least \<open>2\<^sup>5\<^sup>3\<close> below \<open>2\<^sup>5\<^sup>3\<close>.\<close>

lemma half_even_ge_floor: "\<lfloor>x\<rfloor> \<le> half_even x"
  by (simp add: half_even_def)

lemma nearest_large:
  assumes "2 ^ 1127 \<le> s" and "j = 0 \<or> 2 ^ (52 + j) \<le> s"
  shows "num_ge (nearest k j s) (Fin (2 ^ 53))"
  using assms(2)
proof (induction k arbitrary: j)
  case 0
  then show ?case by simp
next
  case (Suc k)
  show ?case
  proof (cases "s < 2 ^ (53 + j)")
    case False
    then have "2 ^ (52 + Suc j) \<le> s" by simp
    then have "num_ge (nearest k (Suc j) s) (Fin (2 ^ 53))" using Suc.IH by blast
    with False show ?thesis by simp
  next
    case True
    with assms(1) have "(2::rat) ^ 1127 < 2 ^ (53 + j)" by simp
    then have "1127 < 53 + j" by (simp only: power_strict_increasing_iff)
    then have j: "1075 \<le> j" by simp
    with Suc.prems have low: "2 ^ (52 + j) \<le> s" by auto
    have "(2::rat) ^ 52 \<le> s / 2 ^ j"
      using low by (simp add: pos_le_divide_eq power_add)
    then have "(2::int) ^ 52 \<le> \<lfloor>s / 2 ^ j\<rfloor>" by (simp add: le_floor_iff)
    with half_even_ge_floor [of "s / 2 ^ j"] have "(2::int) ^ 52 \<le> half_even (s / 2 ^ j)"
      by linarith
    then have m: "(2::rat) ^ 52 \<le> of_int (half_even (s / 2 ^ j))"
      by (metis of_int_le_iff of_int_numeral of_int_power)
    from j have "(2::rat) ^ 1075 \<le> 2 ^ j" by (simp only: power_increasing_iff)
    with m have "(2::rat) ^ 52 * 2 ^ 1075 \<le> of_int (half_even (s / 2 ^ j)) * 2 ^ j"
      by (intro mult_mono) simp_all
    then have "(2::rat) ^ 53 \<le> of_int (half_even (s / 2 ^ j)) * 2 ^ j / 2 ^ 1074"
      by (simp add: pos_le_divide_eq)
    with True show ?thesis by simp
  qed
qed

lemma to_double_large:
  assumes "2 ^ 53 \<le> r"
  shows "num_ge (to_double r) (Fin (2 ^ 53))"
proof -
  from assms have pos: "0 < r" by (rule less_le_trans [rotated]) simp
  from assms have "2 ^ 53 * 2 ^ 1074 \<le> r * 2 ^ 1074" by simp
  then have "2 ^ 1127 \<le> r * 2 ^ 1074" by simp
  then have "num_ge (round_positive r) (Fin (2 ^ 53))"
    unfolding round_positive_def by (rule nearest_large) simp
  with assms pos show ?thesis by (simp add: to_double_def)
qed

lemma large_length_refused:
  assumes "num_ge y (Fin (2 ^ 53))"
  shows "array_from_length y = Inl RangeError"
proof (cases y)
  case (Fin r)
  with assms have "(2::int) ^ 53 \<le> \<lfloor>r\<rfloor>" by (simp add: le_floor_iff)
  then show ?thesis using Fin by simp
qed (use assms in simp_all)

section \<open>An end-to-end run\<close>

text \<open>
  C1. A survey is created with the single question
  \<^verbatim>\<open>{type:"scale", min:1, max:3, text:"Q"}\<close>; the bodies \<^verbatim>\<open>{answers:[{answer:2}]}\<close>,
  \<^verbatim>\<open>{answers:[{answer:2}]}\<close> and \<^verbatim>\<open>{answers:[{answer:5}]}\<close> are submitted; the analytics
  reply then holds the bins \<^verbatim>\<open>1\<close>, \<^verbatim>\<open>2\<close>, \<^verbatim>\<open>3\<close> with the counts 0, 2, 0: the answer 5
  lies outside the range and lands in no bin.
\<close>

theorem scale_end_to_end:
  "fst (get_analytics P
     (snd (submit_response
       (snd (submit_response
         (snd (submit_response
           (snd (create_survey empty_db
                  (JObj [(''title'', JStr ''T''),
                         (''questions'',
                          JArr [JObj [(''type'', JStr ''scale''), (''min'', JNum (Fin 1)),
                                      (''max'', JNum (Fin 3)), (''text'', JStr ''Q'')]])])
                  ''1a2b3c4d''))
           ''1a2b3c4d'' (JObj [(''answers'', JArr [JObj [(''answer'', JNum (Fin 2))]])]) 10))
         ''1a2b3c4d'' (JObj [(''answers'', JArr [JObj [(''answer'', JNum (Fin 2))]])]) 20))
       ''1a2b3c4d'' (JObj [(''answers'', JArr [JObj [(''answer'', JNum (Fin 5))]])]) 30))
     ''1a2b3c4d'')
   = Ok [Scale (JStr ''Q'')
           [\<lparr>label = ''1'', count = 0\<rparr>, \<lparr>label = ''2'', count = 2\<rparr>, \<lparr>label = ''3'', count = 0\<rparr>]
           (Fin 1) (Fin 3)]"
  by (simp add: create_survey_def submit_response_def get_analytics_def plain_get_def empty_db_def
      falsy_or_def analytics_def summarize_def scale_summary_def nullish_or_def
      num_sub_def fresh_bins_def scale_tally_def answer_at_def is_int_def dec_int_def upt_rec
      Let_def to_double_safe_int safe_int_def)

section \<open>Loops, searches and counts\<close>

lemma for_each_append:
  "for_each f s (xs @ ys) = (case for_each f s xs of Inl e \<Rightarrow> Inl e | Inr s' \<Rightarrow> for_each f s' ys)"
  by (induction xs arbitrary: s) (auto split: sum.splits)

lemma for_each_invariant:
  assumes "for_each f s xs = Inr s'" and "I s"
    and step: "\<And>s x s'. I s \<Longrightarrow> f s x = Inr s' \<Longrightarrow> I s'"
  shows "I s'"
  using assms(1,2)
proof (induction xs arbitrary: s)
  case Nil
  then show ?case by simp
next
  case (Cons x xs)
  from Cons.prems(1) obtain s1 where s1: "f s x = Inr s1" and rest: "for_each f s1 xs = Inr s'"
    by (auto split: sum.splits)
  have "I s1" using step [OF Cons.prems(2) s1] .
  then show ?case using Cons.IH [OF rest] by blast
qed

lemma index_of_None: "index_of xs a = None \<longleftrightarrow> a \<notin> set xs"
  by (induction xs) (auto split: option.splits)

lemma index_of_Some:
  "index_of xs a = Some i \<Longrightarrow> i < length xs \<and> xs ! i = a \<and> (\<forall>j<i. xs ! j \<noteq> a)"
proof (induction xs arbitrary: i)
  case Nil
  then show ?case by simp
next
  case (Cons x xs)
  show ?case
  proof (cases "x = a")
    case True
    with Cons.prems show ?thesis by simp
  next
    case False
    with Cons.prems obtain k where k: "index_of xs a = Some k" and i: "i = Suc k"
      by (auto split: option.splits)
    from Cons.IH [OF k] False i show ?thesis
      by (auto simp: nth_Cons split: nat.splits)
  qed
qed

lemma map_e_Inr:
  "map_e f xs = Inr ys \<Longrightarrow> length ys = length xs \<and> (\<forall>i<length xs. f (xs ! i) = Inr (ys ! i))"
proof (induction xs arbitrary: ys)
  case Nil
  then show ?case by simp
next
  case (Cons x xs)
  from Cons.prems obtain y ys' where y: "f x = Inr y" and r: "map_e f xs = Inr ys'" and e: "ys = y # ys'"
    by (auto split: sum.splits)
  from Cons.IH [OF r] y e show ?case
    by (auto simp: nth_Cons split: nat.splits)
qed

lemma text_count_acc:
  "foldl (\<lambda>n r. if truthy (answer_at r qi) then n + 1 else n) (k::int) R
     = k + int (length (filter (\<lambda>r. truthy (answer_at r qi)) R))"
  by (induction R arbitrary: k) auto

lemma text_count_filter:
  "text_count R qi = int (length (filter (\<lambda>r. truthy (answer_at r qi)) R))"
  by (simp add: text_count_def text_count_acc)

lemma mcq_tally_unmatched:
  "call_trim (falsy_or (answer_at r qi) (JStr [])) = Inr a \<Longrightarrow> a \<notin> set ls \<Longrightarrow>
   mcq_tally ls qi cs r = Inr cs"
  by (simp add: mcq_tally_def index_of_None [symmetric])

lemma analytics_nth:
  assumes "analytics P qs R = Inr out"
  shows "length out = length qs \<and> (\<forall>i<length qs. summarize P R (qs ! i) i = Inr (out ! i))"
proof -
  from map_e_Inr [OF assms [unfolded analytics_def]]
  show ?thesis by auto
qed

lemma mcq_tally_dup:
  assumes "mcq_tally ls qi cs r = Inr cs'"
    and "length cs = length ls \<and> (\<forall>i<length ls. (\<exists>j<i. ls ! j = ls ! i) \<longrightarrow> cs ! i = 0)"
  shows "length cs' = length ls \<and> (\<forall>i<length ls. (\<exists>j<i. ls ! j = ls ! i) \<longrightarrow> cs' ! i = 0)"
proof -
  from assms(1) obtain a where a: "call_trim (falsy_or (answer_at r qi) (JStr [])) = Inr a"
    by (auto simp: mcq_tally_def split: sum.splits)
  show ?thesis
  proof (cases "index_of ls a")
    case None
    with assms a show ?thesis by (simp add: mcq_tally_def)
  next
    case (Some k)
    with assms(1) a have cs': "cs' = cs[k := cs ! k + 1]" by (simp add: mcq_tally_def)
    from index_of_Some [OF Some] have k: "k < length ls" "ls ! k = a" "\<forall>j<k. ls ! j \<noteq> a" by auto
    have "cs' ! i = 0" if "i < length ls" "\<exists>j<i. ls ! j = ls ! i" for i
    proof -
      from that k have "i \<noteq> k" by auto
      with cs' assms(2) that show ?thesis by simp
    qed
    with cs' assms(2) show ?thesis by simp
  qed
qed

lemma mcq_tally_shape:
  assumes "mcq_tally ls qi cs r = Inr cs'"
    and "length cs = length ls \<and> (\<forall>c\<in>set cs. 0 \<le> c)"
  shows "length cs' = length ls \<and> (\<forall>c\<in>set cs'. 0 \<le> c)"
proof -
  from assms(1) obtain a where a: "call_trim (falsy_or (answer_at r qi) (JStr [])) = Inr a"
    by (auto simp: mcq_tally_def split: sum.splits)
  show ?thesis
  proof (cases "index_of ls a")
    case None
    with assms a show ?thesis by (simp add: mcq_tally_def)
  next
    case (Some k)
    with assms(1) a have cs': "cs' = cs[k := cs ! k + 1]" by (simp add: mcq_tally_def)
    from index_of_Some [OF Some] assms(2) have k: "k < length cs" by simp
    then have "0 \<le> cs ! k" using assms(2) by simp
    then have "\<forall>c\<in>set cs'. 0 \<le> c"
      using cs' assms(2) set_update_subset_insert [of cs k "cs ! k + 1"] by auto
    with cs' assms(2) show ?thesis by simp
  qed
qed

lemma scale_tally_shape:
  assumes "scale_tally P mn qi bins r = Inr bins'"
    and "length bins = n \<and> (\<forall>b\<in>set bins. 0 \<le> count b)"
  shows "length bins' = n \<and> (\<forall>b\<in>set bins'. 0 \<le> count b)"
proof -
  from assms(1) obtain v where v: "to_number P (answer_at r qi) = Inr v"
    by (auto simp: scale_tally_def split: sum.splits)
  let ?bi = "num_sub v mn"
  show ?thesis
  proof (cases "num_ge ?bi (Fin 0) \<and> num_less ?bi (Fin (of_nat (length bins)))")
    case False
    with assms v show ?thesis by (auto simp: scale_tally_def Let_def)
  next
    case True
    with assms(1) v obtain x where x: "?bi = Fin x" "is_int x"
      and b': "bins' = bins[nat \<lfloor>x\<rfloor> := (bins ! nat \<lfloor>x\<rfloor>)\<lparr>count := count (bins ! nat \<lfloor>x\<rfloor>) + 1\<rparr>]"
      by (auto simp: scale_tally_def Let_def split: jsnum.splits if_splits)
    from True x have "0 \<le> x" "x < of_nat (length bins)" by simp_all
    then have k: "nat \<lfloor>x\<rfloor> < length bins" by (simp add: floor_less_iff nat_less_iff)
    then have "0 \<le> count (bins ! nat \<lfloor>x\<rfloor>)" using assms(2) by simp
    then have "\<forall>b\<in>set bins'. 0 \<le> count b"
      using b' assms(2)
        set_update_subset_insert [of bins "nat \<lfloor>x\<rfloor>" "(bins ! nat \<lfloor>x\<rfloor>)\<lparr>count := count (bins ! nat \<lfloor>x\<rfloor>) + 1\<rparr>"]
      by auto
    with b' assms(2) show ?thesis by simp
  qed
qed

lemma array_from_length_int:
  assumes "array_from_length (Fin r) = Inr n" and "is_int r" and "0 \<le> r"
  shows "of_nat n = r"
proof -
  from assms(2) have r: "of_int \<lfloor>r\<rfloor> = r" by (simp add: is_int_def)
  from assms(3) have f: "0 \<le> \<lfloor>r\<rfloor>" by simp
  show ?thesis
  proof (cases "\<lfloor>r\<rfloor> \<le> 0")
    case True
    then have "\<lfloor>r\<rfloor> = 0" using f by (rule order.antisym)
    with r have "r = 0" by simp
    with assms(1) show ?thesis by simp
  next
    case False
    with assms(1) have "n = nat \<lfloor>r\<rfloor>" by (simp split: if_splits)
    then have "(of_nat n :: rat) = of_int \<lfloor>r\<rfloor>" using f by simp
    with r show ?thesis by simp
  qed
qed

lemma bins_length_exact:
  assumes int: "is_int d" and low: "- 1 \<le> d"
    and n: "array_from_length (num_add (to_double d) (Fin 1)) = Inr n"
  shows "of_nat n = d + 1"
proof (cases "d + 1 \<le> 2 ^ 53")
  case True
  from int have int': "is_int (d + 1)"
    by (metis is_int_def of_int_1 of_int_add of_int_floor_cancel)
  from True low int have "safe_int d" by (simp add: safe_int_def abs_le_iff)
  moreover from True low int' have "safe_int (d + 1)" by (simp add: safe_int_def abs_le_iff)
  ultimately have "num_add (to_double d) (Fin 1) = Fin (d + 1)"
    by (simp add: to_double_safe_int)
  with n have "array_from_length (Fin (d + 1)) = Inr n" by simp
  from array_from_length_int [OF this int'] low show ?thesis by simp
next
  case False
  from int obtain k where k: "d = of_int k" by (metis is_int_def)
  from False k have "rat_of_int (2 ^ 53) < of_int (k + 1)" by simp
  then have "2 ^ 53 < k + 1" by (simp only: of_int_less_iff)
  then have "2 ^ 53 \<le> k" by simp
  then have "rat_of_int (2 ^ 53) \<le> of_int k" by (simp only: of_int_le_iff)
  with k have big: "2 ^ 53 \<le> d" by simp
  have "array_from_length (num_add (to_double d) (Fin 1)) = Inl RangeError"
  proof (cases "to_double d")
    case (Fin y)
    with to_double_large [OF big] have "2 ^ 53 \<le> y" by simp
    then have "2 ^ 53 \<le> y + 1" by simp
    from to_double_large [OF this] Fin show ?thesis
      by (simp add: large_length_refused)
  next
    case NaN
    with to_double_large [OF big] show ?thesis by simp
  next
    case PInf
    then show ?thesis by simp
  next
    case NInf
    with to_double_large [OF big] show ?thesis by simp
  qed
  with n show ?thesis by simp
qed

lemma summarize_shape:
  assumes "summarize P R q qi = Inr s"
  shows "case s of
      Mcq t ls cs \<Rightarrow> length cs = length ls \<and> (\<forall>c\<in>set cs. 0 \<le> c)
    | Scale t bins mn mx \<Rightarrow>
        (\<forall>b\<in>set bins. 0 \<le> count b)
        \<and> (\<forall>a b. mn = Fin a \<and> mx = Fin b \<and> is_int (b - a) \<and> a \<le> b + 1
              \<longrightarrow> of_nat (length bins) = b - a + 1)
    | Text t c \<Rightarrow> 0 \<le> c"
proof -
  from assms have nn: "\<not> nullish q" by (auto simp: summarize_def split: if_splits)
  consider (is_mcq) "get_field q ''type'' = JStr ''mcq''"
    | (is_scale) "get_field q ''type'' \<noteq> JStr ''mcq''" "get_field q ''type'' = JStr ''scale''"
    | (is_text) "get_field q ''type'' \<noteq> JStr ''mcq''" "get_field q ''type'' \<noteq> JStr ''scale''"
    by blast
  then show ?thesis
  proof cases
    case is_mcq
    with assms nn obtain ls cs where s: "s = Mcq (get_field q ''text'') ls cs"
      and loop: "for_each (mcq_tally ls qi) (map (\<lambda>_. 0) ls) R = Inr cs"
      by (auto simp: summarize_def mcq_summary_def split: sum.splits)
    let ?I = "\<lambda>cs. length cs = length ls \<and> (\<forall>c\<in>set cs. (0::int) \<le> c)"
    have "?I cs"
    proof (rule for_each_invariant [OF loop, where I = ?I])
      show "?I (map (\<lambda>_. 0) ls)" by simp
    next
      fix s x s'
      assume "?I s" and "mcq_tally ls qi s x = Inr s'"
      then show "?I s'" using mcq_tally_shape by blast
    qed
    with s show ?thesis by simp
  next
    case is_scale
    with assms nn obtain mn mx n bins where s: "s = Scale (get_field q ''text'') bins mn mx"
      and n: "array_from_length (num_add (num_sub mx mn) (Fin 1)) = Inr n"
      and loop: "for_each (scale_tally P mn qi) (fresh_bins P mn n) R = Inr bins"
      by (auto simp: summarize_def scale_summary_def split: sum.splits)
    let ?I = "\<lambda>bins. length bins = n \<and> (\<forall>b\<in>set bins. 0 \<le> count b)"
    have I: "?I bins"
    proof (rule for_each_invariant [OF loop, where I = ?I])
      show "?I (fresh_bins P mn n)" by (auto simp: fresh_bins_def)
    next
      fix s x s'
      assume "?I s" and "scale_tally P mn qi s x = Inr s'"
      then show "?I s'" using scale_tally_shape by blast
    qed
    have "of_nat (length bins) = b - a + 1"
      if "mn = Fin a \<and> mx = Fin b \<and> is_int (b - a) \<and> a \<le> b + 1" for a b
    proof -
      from that n have "array_from_length (num_add (to_double (b - a)) (Fin 1)) = Inr n"
        by (simp add: num_sub_def)
      moreover from that have "- 1 \<le> b - a" by simp
      ultimately have "of_nat n = b - a + 1"
        using bins_length_exact that by blast
      with I show ?thesis by simp
    qed
    with I s show ?thesis by simp
  next
    case is_text
    with assms nn have "s = Text (get_field q ''text'') (text_count R qi)"
      by (simp add: summarize_def)
    then show ?thesis by (simp add: text_count_filter)
  qed
qed

lemma scale_tally_length:
  assumes "scale_tally P mn qi bins r = Inr bins'"
  shows "length bins' = length bins"
  using assms
  by (auto simp: scale_tally_def Let_def split: sum.splits jsnum.splits if_splits)

lemma scale_loop_length:
  assumes "for_each (scale_tally P mn qi) bins R = Inr bins'"
  shows "length bins' = length bins"
proof -
  let ?I = "\<lambda>bs. length bs = length bins"
  show "?I bins'"
  proof (rule for_each_invariant [OF assms, where I = ?I])
    show "?I bins" by simp
  next
    fix s x s'
    assume "?I s" and "scale_tally P mn qi s x = Inr s'"
    then show "?I s'" using scale_tally_length by simp
  qed
qed

lemma summarize_Text:
  assumes "summarize P R q qi = Inr (Text t c)"
  shows "c = text_count R qi"
  using assms
  by (auto simp: summarize_def mcq_summary_def scale_summary_def split: if_splits sum.splits)

section \<open>Answers that are absent\<close>

text \<open>
  A response whose \<^verbatim>\<open>answers\<close> array ends before the question's index reads as
  \<^verbatim>\<open>undefined\<close>. The scale loop skips it. The multiple-choice loop turns it into the
  empty string, which is skipped unless some label is itself empty (an option made of
  white space only).
\<close>

lemma answer_at_missing: "length (answers r) \<le> qi \<Longrightarrow> answer_at r qi = JUndefined"
  by (simp add: answer_at_def)

lemma missing_answer_scale:
  "length (answers r) \<le> qi \<Longrightarrow> scale_tally P mn qi bins r = Inr bins"
  by (cases mn) (simp_all add: scale_tally_def answer_at_missing num_sub_def)

lemma missing_answer_mcq:
  "length (answers r) \<le> qi \<Longrightarrow> [] \<notin> set ls \<Longrightarrow> mcq_tally ls qi cs r = Inr cs"
  by (rule mcq_tally_unmatched [where a = "[]"])
     (simp_all add: answer_at_missing falsy_or_def trim_def)

section \<open>Storing responses\<close>

text \<open>
  What \<^verbatim>\<open>POST /api/surveys/:id/responses\<close> does on a name that is unknown to
  \<^verbatim>\<open>DB.surveys\<close> and to \<^verbatim>\<open>Object.prototype\<close>, on a body without an array, and on a
  stored survey with its response list.
\<close>

lemma submit_response_unknown:
  "plain_get (surveys d) i = Missing \<Longrightarrow> submit_response d i body now = (NotFound, d)"
  by (simp add: submit_response_def)

lemma submit_response_no_array:
  assumes "surveys d i = Some s"
    and "\<forall>ans. get_field (falsy_or body (JObj [])) ''answers'' \<noteq> JArr ans"
  shows "submit_response d i body now = (BadRequest ''answers required'', d)"
  using assms by (simp add: submit_response_def plain_get_def split: jsval.splits)

lemma submit_response_appends:
  assumes "surveys d i = Some s" and "responses d i = Some rs"
    and "get_field (falsy_or body (JObj [])) ''answers'' = JArr ans"
  shows "submit_response d i body now
       = (Ok (), d\<lparr>responses := (responses d)(i \<mapsto> rs @ [\<lparr>ts = now, answers = ans\<rparr>])\<rparr>)"
  using assms by (simp add: submit_response_def plain_get_def)

lemma create_survey_then_submit:
  assumes "get_field (falsy_or body (JObj [])) ''questions'' = JArr qs"
    and "get_field (falsy_or body' (JObj [])) ''answers'' = JArr ans"
  shows "fst (submit_response (snd (create_survey d body i)) i body' now) = Ok ()"
  using assms by (simp add: create_survey_def submit_response_def plain_get_def)

text \<open>
  C8. \<^verbatim>\<open>submitResponse\<close> is to answer not-found whenever no survey is stored under the
  identifier. Under the identifier \<^verbatim>\<open>constructor\<close> the empty store holds no survey, yet
  the guard \<^verbatim>\<open>!DB.surveys[id]\<close> sees the inherited function and lets the request
  through; with an array for \<^verbatim>\<open>answers\<close> the handler then calls \<^verbatim>\<open>push\<close> on a value
  that has none and leaves with a \<^verbatim>\<open>TypeError\<close>. The store stays as it was.
\<close>

theorem submit_under_inherited_name_raises:
  "submit_response empty_db ''constructor'' (JObj [(''answers'', JArr [])]) now
   = (Threw TypeError, empty_db)"
  by (simp add: submit_response_def plain_get_def empty_db_def object_prototype_names_def
      falsy_or_def)

section \<open>Multiple-choice summaries\<close>

text \<open>
  C2. For a multiple-choice question whose labels are \<open>ls\<close>, a response whose trimmed
  answer \<open>a\<close> is not among \<open>ls\<close> (a blank answer gives the empty string) leaves the
  counts of the loop unchanged, the summary is the same as without that response, and
  the labels of the summary are \<open>ls\<close>, so \<open>a\<close> is not among them.
\<close>

theorem unmatched_answer_not_counted:
  assumes "get_field q ''type'' = JStr ''mcq''"
    and "mcq_labels q = Inr ls"
    and "call_trim (falsy_or (answer_at r qi) (JStr [])) = Inr a"
    and "a \<notin> set ls"
  shows "mcq_tally ls qi cs r = Inr cs
       \<and> summarize P (R1 @ r # R2) q qi = summarize P (R1 @ R2) q qi
       \<and> (\<forall>t ls' cs'. summarize P (R1 @ r # R2) q qi = Inr (Mcq t ls' cs') \<longrightarrow> ls' = ls \<and> a \<notin> set ls')"
proof -
  have step: "\<And>cs. mcq_tally ls qi cs r = Inr cs"
    using assms(3,4) by (rule mcq_tally_unmatched)
  have nn: "\<not> nullish q" using assms(1) by (cases q) auto
  have loop: "for_each (mcq_tally ls qi) cs0 (R1 @ r # R2) = for_each (mcq_tally ls qi) cs0 (R1 @ R2)" for cs0
    by (simp add: for_each_append step split: sum.splits)
  have same: "summarize P (R1 @ r # R2) q qi = summarize P (R1 @ R2) q qi"
    using nn assms(1,2) by (simp add: summarize_def mcq_summary_def loop)
  have lab: "\<forall>t ls' cs'. summarize P (R1 @ r # R2) q qi = Inr (Mcq t ls' cs') \<longrightarrow> ls' = ls \<and> a \<notin> set ls'"
    using nn assms(1,2,4) by (auto simp: summarize_def mcq_summary_def split: sum.splits)
  from step same lab show ?thesis by blast
qed

theorem unmatched_answer_not_counted_witness:
  "get_field (JObj [(''type'', JStr ''mcq''), (''options'', JArr [JStr ''A'', JStr '' B ''])]) ''type'' = JStr ''mcq''
   \<and> mcq_labels (JObj [(''type'', JStr ''mcq''), (''options'', JArr [JStr ''A'', JStr '' B ''])]) = Inr [''A'', ''B'']
   \<and> call_trim (falsy_or (answer_at \<lparr>ts = 7, answers = [JObj [(''answer'', JStr ''  '')]]\<rparr> 0) (JStr [])) = Inr []
   \<and> [] \<notin> set [''A'', ''B'']
   \<and> mcq_tally [''A'', ''B''] 0 [4, 2] \<lparr>ts = 7, answers = [JObj [(''answer'', JStr ''  '')]]\<rparr> = Inr [4, 2]
   \<and> summarize no_conversions
        ([\<lparr>ts = 5, answers = [JObj [(''answer'', JStr ''B'')]]\<rparr>]
          @ \<lparr>ts = 7, answers = [JObj [(''answer'', JStr ''  '')]]\<rparr> # [])
        (JObj [(''type'', JStr ''mcq''), (''options'', JArr [JStr ''A'', JStr '' B ''])]) 0
     = Inr (Mcq JUndefined [''A'', ''B''] [0, 1])"
proof -
  let ?q = "JObj [(''type'', JStr ''mcq''), (''options'', JArr [JStr ''A'', JStr '' B ''])]"
  let ?r = "\<lparr>ts = 7, answers = [JObj [(''answer'', JStr ''  '')]]\<rparr>"
  let ?prev = "\<lparr>ts = 5, answers = [JObj [(''answer'', JStr ''B'')]]\<rparr>"
  have h1: "get_field ?q ''type'' = JStr ''mcq''" by simp
  have h2: "mcq_labels ?q = Inr [''A'', ''B'']"
    by (simp add: mcq_labels_def falsy_or_def trim_def is_ws_def)
  have h3: "call_trim (falsy_or (answer_at ?r 0) (JStr [])) = Inr []"
    by (simp add: answer_at_def falsy_or_def trim_def is_ws_def)
  have h4: "[] \<notin> set [''A'', ''B'']" by simp
  have base: "summarize no_conversions ([?prev] @ []) ?q 0 = Inr (Mcq JUndefined [''A'', ''B''] [0, 1])"
    by (simp add: summarize_def mcq_summary_def h2 mcq_tally_def answer_at_def falsy_or_def
        trim_def is_ws_def)
  note inst = unmatched_answer_not_counted [OF h1 h2 h3 h4, of "[4, 2]" no_conversions "[?prev]" "[]"]
  from inst have i1: "mcq_tally [''A'', ''B''] 0 [4, 2] ?r = Inr [4, 2]" by (rule conjunct1)
  from inst have i2: "summarize no_conversions ([?prev] @ ?r # []) ?q 0
      = summarize no_conversions ([?prev] @ []) ?q 0" by blast
  note i3 = trans [OF i2 base]
  show ?thesis
    by (intro conjI) (rule h1 h2 h3 h4 i1 i3)+
qed

text \<open>
  C10. In a multiple-choice summary the count at a position whose label already
  occurs at an earlier position is 0, whatever the responses: \<^verbatim>\<open>indexOf\<close> returns the
  first position only.
\<close>

theorem duplicate_label_never_counted:
  assumes "get_field q ''type'' = JStr ''mcq''"
    and "summarize P R q qi = Inr (Mcq t ls cs)"
    and "j < i" and "i < length ls" and "ls ! j = ls ! i"
  shows "cs ! i = 0"
proof -
  have nn: "\<not> nullish q" using assms(1) by (cases q) auto
  from assms(1,2) nn have loop: "for_each (mcq_tally ls qi) (map (\<lambda>_. 0) ls) R = Inr cs"
    by (auto simp: summarize_def mcq_summary_def split: sum.splits)
  let ?I = "\<lambda>cs. length cs = length ls \<and> (\<forall>i<length ls. (\<exists>j<i. ls ! j = ls ! i) \<longrightarrow> cs ! i = 0)"
  have "?I cs"
  proof (rule for_each_invariant [OF loop, where I = ?I])
    show "?I (map (\<lambda>_. 0) ls)" by simp
  next
    fix s x s'
    assume "?I s" and "mcq_tally ls qi s x = Inr s'"
    then show "?I s'" using mcq_tally_dup by blast
  qed
  with assms(3,4,5) show ?thesis by blast
qed

theorem duplicate_label_never_counted_witness:
  "summarize no_conversions
     [\<lparr>ts = 1, answers = [JObj [(''answer'', JStr ''A'')]]\<rparr>,
      \<lparr>ts = 2, answers = [JObj [(''answer'', JStr '' A'')]]\<rparr>]
     (JObj [(''type'', JStr ''mcq''), (''options'', JArr [JStr ''A'', JStr ''B'', JStr ''A ''])]) 0
   = Inr (Mcq JUndefined [''A'', ''B'', ''A''] [2, 0, 0])
   \<and> [2, 0, 0 :: int] ! 2 = 0"
proof -
  let ?q = "JObj [(''type'', JStr ''mcq''), (''options'', JArr [JStr ''A'', JStr ''B'', JStr ''A ''])]"
  let ?R = "[\<lparr>ts = 1, answers = [JObj [(''answer'', JStr ''A'')]]\<rparr>,
      \<lparr>ts = 2, answers = [JObj [(''answer'', JStr '' A'')]]\<rparr>]"
  have h1: "get_field ?q ''type'' = JStr ''mcq''" by simp
  have h2: "summarize no_conversions ?R ?q 0 = Inr (Mcq JUndefined [''A'', ''B'', ''A''] [2, 0, 0])"
    by (simp add: summarize_def mcq_summary_def mcq_labels_def mcq_tally_def answer_at_def
        falsy_or_def trim_def is_ws_def)
  have h3: "(0::nat) < 2" and h4: "(2::nat) < length [''A'', ''B'', ''A'']"
    and h5: "[''A'', ''B'', ''A''] ! 0 = [''A'', ''B'', ''A''] ! 2" by simp_all
  from duplicate_label_never_counted [OF h1 h2 h3 h4 h5] h2 show ?thesis by simp
qed

text \<open>
  C4. The aggregator is to tolerate an answer whose type does not fit the question.
  For the question \<^verbatim>\<open>{type:"mcq", options:["A"]}\<close> and the response
  \<^verbatim>\<open>{answers:[{answer:5}]}\<close> it does not: \<^verbatim>\<open>(5 || '').trim()\<close> calls a method that numbers
  do not have, and the whole computation ends in a \<^verbatim>\<open>TypeError\<close>.
\<close>

theorem non_string_mcq_answer_raises:
  "analytics P [JObj [(''type'', JStr ''mcq''), (''options'', JArr [JStr ''A''])]]
     [\<lparr>ts = 1, answers = [JObj [(''answer'', JNum (Fin 5))]]\<rparr>]
   = Inl TypeError"
  by (simp add: analytics_def summarize_def mcq_summary_def mcq_labels_def mcq_tally_def
      answer_at_def falsy_or_def trim_def is_ws_def)

section \<open>Scale summaries\<close>

text \<open>
  The loop body in terms of the offset \<open>x\<close> that \<^verbatim>\<open>v - min\<close> yields: \<^verbatim>\<open>Math.round\<close> is not
  applied; an offset outside the bins leaves them alone, an integer offset inside
  increments its bin, and any other offset inside raises.
\<close>

lemma scale_tally_offset:
  assumes "to_number P (answer_at r qi) = Inr v" and "num_sub v mn = Fin x"
  shows "scale_tally P mn qi bins r =
     (if 0 \<le> x \<and> x < of_nat (length bins)
      then (if is_int x
            then Inr (bins[nat \<lfloor>x\<rfloor> :=
                   (bins ! nat \<lfloor>x\<rfloor>)\<lparr>count := count (bins ! nat \<lfloor>x\<rfloor>) + 1\<rparr>])
            else Inl TypeError)
      else Inr bins)"
  using assms by (simp add: scale_tally_def)

lemma scale_tally_no_bin:
  assumes v: "to_number P (answer_at r qi) = Inr v"
    and off: "\<not> (\<exists>x. num_sub v mn = Fin x \<and> is_int x \<and> 0 \<le> x \<and> x < of_nat (length bins))"
    and ret: "scale_tally P mn qi bins r = Inr bins'"
  shows "bins' = bins"
proof (cases "num_sub v mn")
  case (Fin x)
  from scale_tally_offset [OF v Fin, of bins] ret off Fin show ?thesis
    by (auto split: if_splits)
qed (use v ret in \<open>simp_all add: scale_tally_def\<close>)

text \<open>
  The earlier copy on the answer \<^verbatim>\<open>2.5\<close> with \<open>min = 1\<close> and three bins: the answer is
  rounded to 3 and counted in the last bin.
\<close>

lemma rounding_variant_counts_fraction:
  "scale_tally_rounding P (Fin 1) 0
     [\<lparr>label = ''1'', count = 0\<rparr>, \<lparr>label = ''2'', count = 0\<rparr>, \<lparr>label = ''3'', count = 0\<rparr>]
     \<lparr>ts = 1, answers = [JObj [(''answer'', JNum (Fin (5 / 2)))]]\<rparr>
   = Inr [\<lparr>label = ''1'', count = 0\<rparr>, \<lparr>label = ''2'', count = 0\<rparr>, \<lparr>label = ''3'', count = 1\<rparr>]"
proof -
  have "to_double (5 / 2) = Fin (5 / 2)"
    by (rule to_double_half) (simp add: safe_int_def is_int_def)
  then show ?thesis
    by (simp add: scale_tally_rounding_def answer_at_def num_sub_def is_int_def
        to_double_safe_int safe_int_def)
qed

text \<open>
  The loop of \<^verbatim>\<open>server.js\<close> on the same answer, for the question
  \<^verbatim>\<open>{type:"scale", min:1, max:3}\<close>: the offset \<open>3/2\<close> passes the range test, \<^verbatim>\<open>bins[1.5]\<close>
  is \<^verbatim>\<open>undefined\<close>, and the computation ends in a \<^verbatim>\<open>TypeError\<close> before any bin is
  incremented.
\<close>

lemma fractional_offset_in_range_raises:
  "analytics P
     [JObj [(''type'', JStr ''scale''), (''min'', JNum (Fin 1)), (''max'', JNum (Fin 3))]]
     [\<lparr>ts = 1, answers = [JObj [(''answer'', JNum (Fin (5 / 2)))]]\<rparr>]
   = Inl TypeError"
proof -
  have "\<not> is_int (3 / 2)" by code_simp
  moreover have "to_double (5 / 2) = Fin (5 / 2)"
    by (rule to_double_half) (simp add: safe_int_def is_int_def)
  moreover have "to_double (3 / 2) = Fin (3 / 2)"
    by (rule to_double_half) (simp add: safe_int_def is_int_def)
  ultimately show ?thesis
    by (simp add: analytics_def summarize_def scale_summary_def nullish_or_def num_sub_def
        fresh_bins_def scale_tally_def answer_at_def upt_rec Let_def
        to_double_safe_int safe_int_def is_int_def)
qed

text \<open>
  C3. For a scale question, the offset of an answer \<open>v\<close> is \<^verbatim>\<open>v - min\<close> as the
  subtraction yields it, with no \<^verbatim>\<open>Math.round\<close>. A response whose offset is not an
  integer in \<open>[0, number of bins)\<close> increments no bin: whenever the summary is produced
  with that response among the others, the same summary is produced without it.
\<close>

theorem fractional_answer_lands_in_no_bin:
  assumes ty: "get_field q ''type'' = JStr ''scale''"
    and run: "summarize P (R1 @ r # R2) q qi = Inr (Scale t bs mn mx)"
    and v: "to_number P (answer_at r qi) = Inr v"
    and off: "\<not> (\<exists>x. num_sub v mn = Fin x \<and> is_int x \<and> 0 \<le> x \<and> x < of_nat (length bs))"
  shows "summarize P (R1 @ R2) q qi = Inr (Scale t bs mn mx)"
proof -
  have nn: "\<not> nullish q" using ty by (cases q) auto
  have nm: "get_field q ''type'' \<noteq> JStr ''mcq''" using ty by simp
  from run nn nm ty obtain n where
      mn: "to_number P (nullish_or (get_field q ''min'') (JNum (Fin 1))) = Inr mn"
    and mx: "to_number P (nullish_or (get_field q ''max'') (JNum (Fin 5))) = Inr mx"
    and n: "array_from_length (num_add (num_sub mx mn) (Fin 1)) = Inr n"
    and loop: "for_each (scale_tally P mn qi) (fresh_bins P mn n) (R1 @ r # R2) = Inr bs"
    and t: "t = get_field q ''text''"
    by (auto simp: summarize_def scale_summary_def split: sum.splits)
  from loop obtain b1 b2 where
      l1: "for_each (scale_tally P mn qi) (fresh_bins P mn n) R1 = Inr b1"
    and st: "scale_tally P mn qi b1 r = Inr b2"
    and l2: "for_each (scale_tally P mn qi) b2 R2 = Inr bs"
    by (auto simp: for_each_append split: sum.splits)
  have "length b1 = length bs"
    using scale_loop_length [OF l2] scale_tally_length [OF st] by simp
  with off have "\<not> (\<exists>x. num_sub v mn = Fin x \<and> is_int x \<and> 0 \<le> x \<and> x < of_nat (length b1))"
    by simp
  from scale_tally_no_bin [OF v this st] have "b2 = b1" .
  with l1 l2 have "for_each (scale_tally P mn qi) (fresh_bins P mn n) (R1 @ R2) = Inr bs"
    by (simp add: for_each_append)
  with nn nm ty mn mx n t show ?thesis
    by (simp add: summarize_def scale_summary_def)
qed

theorem fractional_answer_lands_in_no_bin_witness:
  "summarize no_conversions
     ([\<lparr>ts = 1, answers = [JObj [(''answer'', JNum (Fin 2))]]\<rparr>]
        @ \<lparr>ts = 2, answers = [JObj [(''answer'', JNum (Fin (15 / 2)))]]\<rparr> # [])
     (JObj [(''type'', JStr ''scale''), (''min'', JNum (Fin 1)), (''max'', JNum (Fin 3))]) 0
   = Inr (Scale JUndefined
        [\<lparr>label = ''1'', count = 0\<rparr>, \<lparr>label = ''2'', count = 1\<rparr>, \<lparr>label = ''3'', count = 0\<rparr>]
        (Fin 1) (Fin 3))
   \<and> num_sub (Fin (15 / 2)) (Fin 1) = Fin (13 / 2)
   \<and> \<not> is_int (13 / 2)
   \<and> summarize no_conversions
     ([\<lparr>ts = 1, answers = [JObj [(''answer'', JNum (Fin 2))]]\<rparr>] @ [])
     (JObj [(''type'', JStr ''scale''), (''min'', JNum (Fin 1)), (''max'', JNum (Fin 3))]) 0
   = Inr (Scale JUndefined
        [\<lparr>label = ''1'', count = 0\<rparr>, \<lparr>label = ''2'', count = 1\<rparr>, \<lparr>label = ''3'', count = 0\<rparr>]
        (Fin 1) (Fin 3))"
proof -
  let ?q = "JObj [(''type'', JStr ''scale''), (''min'', JNum (Fin 1)), (''max'', JNum (Fin 3))]"
  let ?first = "\<lparr>ts = 1, answers = [JObj [(''answer'', JNum (Fin 2))]]\<rparr>"
  let ?frac = "\<lparr>ts = 2, answers = [JObj [(''answer'', JNum (Fin (15 / 2)))]]\<rparr>"
  let ?bs = "[\<lparr>label = ''1'', count = 0\<rparr>, \<lparr>label = ''2'', count = 1\<rparr>, \<lparr>label = ''3'', count = 0\<rparr>]"
  have ni: "\<not> is_int (13 / 2)" by code_simp
  have d1: "to_double (15 / 2) = Fin (15 / 2)"
    by (rule to_double_half) (simp add: safe_int_def is_int_def)
  have d2: "to_double (13 / 2) = Fin (13 / 2)"
    by (rule to_double_half) (simp add: safe_int_def is_int_def)
  have sub: "num_sub (Fin (15 / 2)) (Fin 1) = Fin (13 / 2)"
    using d2 by (simp add: num_sub_def)
  have ty: "get_field ?q ''type'' = JStr ''scale''" by simp
  have v: "to_number no_conversions (answer_at ?frac 0) = Inr (Fin (15 / 2))"
    using d1 by (simp add: answer_at_def)
  have run: "summarize no_conversions ([?first] @ ?frac # []) ?q 0 = Inr (Scale JUndefined ?bs (Fin 1) (Fin 3))"
    using d1 d2 ni
    by (simp add: summarize_def scale_summary_def nullish_or_def num_sub_def fresh_bins_def
        scale_tally_def answer_at_def upt_rec Let_def dec_int_def
        to_double_safe_int safe_int_def is_int_def)
  have off: "\<not> (\<exists>x. num_sub (Fin (15 / 2)) (Fin 1) = Fin x \<and> is_int x \<and> 0 \<le> x
        \<and> x < of_nat (length ?bs))"
    using sub ni by simp
  note without = fractional_answer_lands_in_no_bin [OF ty run v off]
  show ?thesis
    by (intro conjI) (rule run sub ni without)+
qed

text \<open>
  A range given the wrong way round, which the data model rules out and the code
  accepts: with \<open>min = 3\<close> and \<open>max = 1\<close> the length handed to \<^verbatim>\<open>Array.from\<close> is negative
  and the summary has no bins.
\<close>

lemma reversed_range_has_no_bins:
  "analytics no_conversions
     [JObj [(''type'', JStr ''scale''), (''min'', JNum (Fin 3)), (''max'', JNum (Fin 1))]] []
   = Inr [Scale JUndefined [] (Fin 3) (Fin 1)]"
  by (simp add: analytics_def summarize_def scale_summary_def nullish_or_def num_sub_def
      fresh_bins_def to_double_safe_int safe_int_def is_int_def)

section \<open>Shape of the summaries\<close>

text \<open>
  C5. Whenever the aggregator returns summaries, also for no responses at all: a
  multiple-choice summary has as many counts as labels; a scale summary has exactly
  \<open>max - min + 1\<close> bins, for every range that the data model admits (\<open>min \<le> max\<close> with an
  integer difference; the empty range \<open>max = min - 1\<close> is covered too); and no count is
  negative. A difference too large to be computed exactly gives a length that
  \<^verbatim>\<open>Array.from\<close> refuses, so that no summary exists then.
\<close>

theorem summaries_well_formed:
  assumes "analytics P qs R = Inr out" and "s \<in> set out"
  shows "case s of
      Mcq t ls cs \<Rightarrow> length cs = length ls \<and> (\<forall>c\<in>set cs. 0 \<le> c)
    | Scale t bins mn mx \<Rightarrow>
        (\<forall>b\<in>set bins. 0 \<le> count b)
        \<and> (\<forall>a b. mn = Fin a \<and> mx = Fin b \<and> is_int (b - a) \<and> a \<le> b + 1
              \<longrightarrow> of_nat (length bins) = b - a + 1)
    | Text t c \<Rightarrow> 0 \<le> c"
proof -
  from assms(2) obtain i where i: "i < length out" "s = out ! i"
    by (auto simp: in_set_conv_nth)
  with analytics_nth [OF assms(1)] have "summarize P R (qs ! i) i = Inr s" by simp
  then show ?thesis by (rule summarize_shape)
qed

theorem summaries_well_formed_witness:
  "analytics no_conversions
     [JObj [(''type'', JStr ''scale''), (''min'', JNum (Fin 1)), (''max'', JNum (Fin 3))],
      JObj [(''type'', JStr ''mcq''), (''options'', JArr [JStr ''A'', JStr ''B''])]]
     [\<lparr>ts = 1, answers = [JObj [(''answer'', JNum (Fin 2))], JObj [(''answer'', JStr ''B'')]]\<rparr>]
   = Inr [Scale JUndefined
            [\<lparr>label = ''1'', count = 0\<rparr>, \<lparr>label = ''2'', count = 1\<rparr>, \<lparr>label = ''3'', count = 0\<rparr>]
            (Fin 1) (Fin 3),
          Mcq JUndefined [''A'', ''B''] [0, 1]]
   \<and> rat_of_nat (length
         [\<lparr>label = ''1'', count = 0\<rparr>, \<lparr>label = ''2'', count = 1\<rparr>, \<lparr>label = ''3'', count = 0\<rparr>])
       = 3 - 1 + 1
   \<and> length [0, 1 :: int] = length [''A'', ''B'']"
proof -
  let ?qs = "[JObj [(''type'', JStr ''scale''), (''min'', JNum (Fin 1)), (''max'', JNum (Fin 3))],
      JObj [(''type'', JStr ''mcq''), (''options'', JArr [JStr ''A'', JStr ''B''])]]"
  let ?R = "[\<lparr>ts = 1, answers = [JObj [(''answer'', JNum (Fin 2))], JObj [(''answer'', JStr ''B'')]]\<rparr>]"
  let ?B = "[\<lparr>label = ''1'', count = 0\<rparr>, \<lparr>label = ''2'', count = 1\<rparr>, \<lparr>label = ''3'', count = 0\<rparr>]"
  let ?S = "Scale JUndefined ?B (Fin 1) (Fin 3)"
  let ?M = "Mcq JUndefined [''A'', ''B''] [0, 1]"
  have run: "analytics no_conversions ?qs ?R = Inr [?S, ?M]"
    by (simp add: analytics_def summarize_def scale_summary_def nullish_or_def num_sub_def
        fresh_bins_def scale_tally_def answer_at_def is_int_def dec_int_def upt_rec Let_def
        mcq_summary_def mcq_labels_def mcq_tally_def falsy_or_def trim_def is_ws_def
        to_double_safe_int safe_int_def)
  have diff: "is_int (3 - 1)" by (simp add: is_int_def)
  from summaries_well_formed [OF run, of ?S] diff
  have bins: "rat_of_nat (length ?B) = 3 - 1 + 1" by simp
  from summaries_well_formed [OF run, of ?M]
  have cnts: "length [0, 1 :: int] = length [''A'', ''B'']" by simp
  from run bins cnts show ?thesis by blast
qed

section \<open>Free-text summaries and the fall-through\<close>

text \<open>
  C9, as amended. A question other than \<^verbatim>\<open>null\<close> (any object, and any other value than
  \<^verbatim>\<open>null\<close> and \<^verbatim>\<open>undefined\<close>) whose \<^verbatim>\<open>type\<close> is neither \<^verbatim>\<open>mcq\<close> nor \<^verbatim>\<open>scale\<close> gets the
  summary \<^verbatim>\<open>{type:"text", text, count}\<close>. The count is the number of responses that have
  an entry at the question's index, this entry being neither \<^verbatim>\<open>null\<close> nor \<^verbatim>\<open>undefined\<close>
  and its \<^verbatim>\<open>answer\<close> being truthy.
\<close>

theorem other_type_is_text:
  assumes "\<not> nullish q"
    and "get_field q ''type'' \<noteq> JStr ''mcq''"
    and "get_field q ''type'' \<noteq> JStr ''scale''"
  shows "summarize P R q qi
       = Inr (Text (get_field q ''text'')
           (int (length (filter
              (\<lambda>r. qi < length (answers r) \<and> \<not> nullish (answers r ! qi)
                    \<and> truthy (get_field (answers r ! qi) ''answer'')) R))))"
proof -
  have "truthy (answer_at r qi)
      = (qi < length (answers r) \<and> \<not> nullish (answers r ! qi)
          \<and> truthy (get_field (answers r ! qi) ''answer''))" for r
    by (simp add: answer_at_def)
  then show ?thesis using assms by (simp add: summarize_def text_count_filter)
qed

theorem other_type_is_text_witness:
  "summarize no_conversions
     [\<lparr>ts = 1, answers = [JObj [(''answer'', JStr ''A'')]]\<rparr>,
      \<lparr>ts = 2, answers = [JObj [(''answer'', JStr [])]]\<rparr>,
      \<lparr>ts = 3, answers = []\<rparr>,
      \<lparr>ts = 4, answers = [JNull]\<rparr>,
      \<lparr>ts = 5, answers = [JObj [(''answer'', JNum (Fin 0))]]\<rparr>,
      \<lparr>ts = 6, answers = [JObj [(''answer'', JNum (Fin 4))]]\<rparr>]
     (JObj [(''type'', JStr ''multiple_choice''), (''text'', JStr ''Pick''),
            (''options'', JArr [JStr ''A''])]) 0
   = Inr (Text (JStr ''Pick'') 2)
   \<and> summarize no_conversions
     [\<lparr>ts = 1, answers = [JObj [(''answer'', JStr ''A'')]]\<rparr>,
      \<lparr>ts = 2, answers = [JObj [(''answer'', JStr [])]]\<rparr>]
     (JObj [(''type'', JStr ''free_text''), (''text'', JStr ''Say'')]) 0
   = Inr (Text (JStr ''Say'') 1)
   \<and> summarize no_conversions
     [\<lparr>ts = 1, answers = [JObj [(''answer'', JStr ''A'')]]\<rparr>,
      \<lparr>ts = 2, answers = [JObj [(''answer'', JStr [])]]\<rparr>]
     (JObj [(''kind'', JStr ''scale''), (''min'', JNum (Fin 1)), (''max'', JNum (Fin 3))]) 0
   = Inr (Text JUndefined 1)"
proof -
  let ?R6 = "[\<lparr>ts = 1, answers = [JObj [(''answer'', JStr ''A'')]]\<rparr>,
      \<lparr>ts = 2, answers = [JObj [(''answer'', JStr [])]]\<rparr>,
      \<lparr>ts = 3, answers = []\<rparr>,
      \<lparr>ts = 4, answers = [JNull]\<rparr>,
      \<lparr>ts = 5, answers = [JObj [(''answer'', JNum (Fin 0))]]\<rparr>,
      \<lparr>ts = 6, answers = [JObj [(''answer'', JNum (Fin 4))]]\<rparr>]"
  let ?R = "[\<lparr>ts = 1, answers = [JObj [(''answer'', JStr ''A'')]]\<rparr>,
      \<lparr>ts = 2, answers = [JObj [(''answer'', JStr [])]]\<rparr>]"
  have a: "summarize no_conversions ?R6
     (JObj [(''type'', JStr ''multiple_choice''), (''text'', JStr ''Pick''),
            (''options'', JArr [JStr ''A''])]) 0 = Inr (Text (JStr ''Pick'') 2)"
    using other_type_is_text [of "JObj [(''type'', JStr ''multiple_choice''), (''text'', JStr ''Pick''),
            (''options'', JArr [JStr ''A''])]" no_conversions ?R6 0] by simp
  have b: "summarize no_conversions ?R
     (JObj [(''type'', JStr ''free_text''), (''text'', JStr ''Say'')]) 0 = Inr (Text (JStr ''Say'') 1)"
    using other_type_is_text [of "JObj [(''type'', JStr ''free_text''), (''text'', JStr ''Say'')]"
        no_conversions ?R 0] by simp
  have c: "summarize no_conversions ?R
     (JObj [(''kind'', JStr ''scale''), (''min'', JNum (Fin 1)), (''max'', JNum (Fin 3))]) 0
      = Inr (Text JUndefined 1)"
    using other_type_is_text [of "JObj [(''kind'', JStr ''scale''), (''min'', JNum (Fin 1)), (''max'', JNum (Fin 3))]"
        no_conversions ?R 0] by simp
  from a b c show ?thesis by blast
qed

text \<open>
  C9 as first stated speaks of any question. The stored question \<^verbatim>\<open>null\<close> (the body
  \<^verbatim>\<open>{questions:[null]}\<close> passes \<^verbatim>\<open>Array.isArray\<close>) has no \<^verbatim>\<open>type\<close> \<^verbatim>\<open>mcq\<close> or \<^verbatim>\<open>scale\<close>, and it
  gets no text summary: reading \<^verbatim>\<open>q.type\<close> raises.
\<close>

theorem null_question_raises:
  "fst (get_analytics no_conversions
     (snd (create_survey empty_db (JObj [(''questions'', JArr [JNull])]) ''1a2b3c4d''))
     ''1a2b3c4d'')
   = Threw TypeError"
  by (simp add: create_survey_def get_analytics_def plain_get_def empty_db_def falsy_or_def
      analytics_def summarize_def)

text \<open>
  C7. In the output of the aggregator, the count of a text summary at index \<open>i\<close> is the
  number of responses whose answer at \<open>i\<close> is truthy. It is at most the number of
  responses, and a response whose answer at \<open>i\<close> is missing or the empty string is not
  among those counted.
\<close>

theorem text_count_is_truthy_answers:
  assumes "analytics P qs R = Inr out" and "i < length qs" and "out ! i = Text t c"
  shows "c = int (length (filter (\<lambda>r. truthy (answer_at r i)) R))
       \<and> c \<le> int (length R)
       \<and> (\<forall>r\<in>set R. length (answers r) \<le> i \<or> answer_at r i = JUndefined \<or> answer_at r i = JStr []
             \<longrightarrow> r \<notin> set (filter (\<lambda>r. truthy (answer_at r i)) R))"
proof -
  from analytics_nth [OF assms(1)] assms(2,3) have "summarize P R (qs ! i) i = Inr (Text t c)"
    by simp
  then have "c = text_count R i" by (rule summarize_Text)
  then have c: "c = int (length (filter (\<lambda>r. truthy (answer_at r i)) R))"
    by (simp add: text_count_filter)
  have miss: "\<not> truthy (answer_at r i)"
    if "length (answers r) \<le> i \<or> answer_at r i = JUndefined \<or> answer_at r i = JStr []" for r
    using that by (auto simp: answer_at_def)
  from c miss show ?thesis by auto
qed

theorem text_count_is_truthy_answers_witness:
  "analytics no_conversions [JObj [(''type'', JStr ''text''), (''text'', JStr ''Why?'')]]
     [\<lparr>ts = 1, answers = [JObj [(''answer'', JStr ''because'')]]\<rparr>,
      \<lparr>ts = 2, answers = [JObj [(''answer'', JStr [])]]\<rparr>,
      \<lparr>ts = 3, answers = []\<rparr>]
   = Inr [Text (JStr ''Why?'') 1]
   \<and> (1::int) \<le> int (length
        [\<lparr>ts = 1, answers = [JObj [(''answer'', JStr ''because'')]]\<rparr>,
         \<lparr>ts = 2, answers = [JObj [(''answer'', JStr [])]]\<rparr>,
         \<lparr>ts = 3, answers = []\<rparr>])"
proof -
  let ?qs = "[JObj [(''type'', JStr ''text''), (''text'', JStr ''Why?'')]]"
  let ?R = "[\<lparr>ts = 1, answers = [JObj [(''answer'', JStr ''because'')]]\<rparr>,
      \<lparr>ts = 2, answers = [JObj [(''answer'', JStr [])]]\<rparr>,
      \<lparr>ts = 3, answers = []\<rparr>]"
  have run: "analytics no_conversions ?qs ?R = Inr [Text (JStr ''Why?'') 1]"
    by (simp add: analytics_def summarize_def text_count_def answer_at_def)
  have i: "0 < length ?qs" by simp
  have o: "[Text (JStr ''Why?'') 1] ! 0 = Text (JStr ''Why?'') 1" by simp
  from text_count_is_truthy_answers [OF run i o] have "(1::int) \<le> int (length ?R)" by blast
  with run show ?thesis by blast
qed

section \<open>Reading does not write\<close>

text \<open>
  The loops on the heap against the loops on values. With \<^verbatim>\<open>counts\<close> in the cell after
  the heap \<open>h\<close>, one step of the \<^verbatim>\<open>mcq\<close> loop changes that cell as the step on values
  changes the counts, and nothing else; likewise for the bins, whose objects are the
  cells after \<open>h\<close> and distinct from one another. So each question, and the whole
  aggregation, returns what the aggregation on values returns and leaves a heap that
  extends the one it started from.
\<close>

lemma cell_at_old: "a < length h \<Longrightarrow> cell_at (h @ g) a = cell_at h a"
  by (simp add: cell_at_def nth_append)

lemma cell_at_Some_old: "cell_at h a = Some c \<Longrightarrow> cell_at (h @ g) a = Some c"
  by (auto simp: cell_at_def nth_append split: if_splits)

lemma mcq_step_on_heap:
  "mcq_tally_heap ls qi (length h) (h @ [Counts_cell cs]) r =
     (case mcq_tally ls qi cs r of
        Inl e \<Rightarrow> (Some e, h @ [Counts_cell cs])
      | Inr cs' \<Rightarrow> (None, h @ [Counts_cell cs']))"
  by (simp add: mcq_tally_heap_def mcq_tally_def cell_at_def split: sum.splits option.splits)

lemma mcq_loop_on_heap:
  "\<exists>cs'. each_on_heap (mcq_tally_heap ls qi (length h)) (h @ [Counts_cell cs]) R
        = ((case for_each (mcq_tally ls qi) cs R of Inl e \<Rightarrow> Some e | Inr _ \<Rightarrow> None),
           h @ [Counts_cell cs'])
      \<and> (\<forall>cs''. for_each (mcq_tally ls qi) cs R = Inr cs'' \<longrightarrow> cs' = cs'')"
proof (induction R arbitrary: cs)
  case Nil
  then show ?case by simp
next
  case (Cons r R)
  show ?case
  proof (cases "mcq_tally ls qi cs r")
    case (Inl e)
    then show ?thesis by (simp add: mcq_step_on_heap)
  next
    case (Inr cs1)
    from Cons.IH [of cs1] Inr show ?thesis by (simp add: mcq_step_on_heap)
  qed
qed

lemma mcq_summary_on_heap:
  "\<exists>g. mcq_summary_heap R q qi h = (mcq_summary R q qi, h @ g)"
proof (cases "mcq_labels q")
  case (Inl e)
  then show ?thesis by (simp add: mcq_summary_heap_def mcq_summary_def)
next
  case (Inr ls)
  from mcq_loop_on_heap [of ls qi h "map (\<lambda>_. 0) ls" R] obtain cs' where
      loop: "each_on_heap (mcq_tally_heap ls qi (length h)) (h @ [Counts_cell (map (\<lambda>_. 0) ls)]) R
        = ((case for_each (mcq_tally ls qi) (map (\<lambda>_. 0) ls) R of Inl e \<Rightarrow> Some e | Inr _ \<Rightarrow> None),
           h @ [Counts_cell cs'])"
    and fin: "\<forall>cs''. for_each (mcq_tally ls qi) (map (\<lambda>_. 0) ls) R = Inr cs'' \<longrightarrow> cs' = cs''"
    by blast
  show ?thesis
  proof (cases "for_each (mcq_tally ls qi) (map (\<lambda>_. 0) ls) R")
    case (Inl e)
    with Inr loop show ?thesis
      by (simp add: mcq_summary_heap_def mcq_summary_def alloc_def)
  next
    case (Inr cs)
    with fin have "cs' = cs" by simp
    with Inr \<open>mcq_labels q = Inr ls\<close> loop show ?thesis
      by (simp add: mcq_summary_heap_def mcq_summary_def alloc_def cell_at_def)
  qed
qed

lemma alloc_bins_layout:
  "alloc_bins h bs = ([length h..<length h + length bs], h @ map Bin_cell bs)"
proof (induction bs arbitrary: h)
  case Nil
  then show ?case by simp
next
  case (Cons b bs)
  have "alloc_bins h (b # bs)
      = (length h # [Suc (length h)..<Suc (length h) + length bs], h @ Bin_cell b # map Bin_cell bs)"
    using Cons.IH [of "h @ [Bin_cell b]"] by (simp add: alloc_def)
  moreover have "[length h..<length h + length (b # bs)]
      = length h # [Suc (length h)..<Suc (length h) + length bs]"
    by (subst upt_conv_Cons) simp_all
  ultimately show ?case by simp
qed

lemma read_bins_layout:
  "read_bins (h @ map Bin_cell bs @ t) [length h + j..<length h + length bs] = Some (drop j bs)"
proof (induction "length bs - j" arbitrary: j)
  case 0
  then show ?case by simp
next
  case (Suc k)
  then have j: "j < length bs" by simp
  then have up: "[length h + j..<length h + length bs]
      = (length h + j) # [length h + Suc j..<length h + length bs]"
    by (simp add: upt_conv_Cons)
  have cell: "cell_at (h @ map Bin_cell bs @ t) (length h + j) = Some (Bin_cell (bs ! j))"
    using j by (simp add: cell_at_def nth_append)
  from Suc.hyps(2) have "k = length bs - Suc j" by simp
  from Suc.hyps(1) [OF this] j up cell show ?case
    by (simp add: Cons_nth_drop_Suc)
qed

lemma scale_step_on_heap:
  assumes as: "as = [length h..<length h + length bs]"
  shows "scale_tally_heap P mn qi (length h + length bs) (h @ map Bin_cell bs @ [Bins_cell as]) r =
     (case scale_tally P mn qi bs r of
        Inl e \<Rightarrow> (Some e, h @ map Bin_cell bs @ [Bins_cell as])
      | Inr bs' \<Rightarrow> (None, h @ map Bin_cell bs' @ [Bins_cell as]))"
proof (cases "to_number P (answer_at r qi)")
  case (Inl e)
  then show ?thesis by (simp add: scale_tally_heap_def scale_tally_def)
next
  case (Inr v)
  let ?H = "h @ map Bin_cell bs @ [Bins_cell as]"
  have arr: "cell_at ?H (length h + length bs) = Some (Bins_cell as)"
    by (simp add: cell_at_def nth_append)
  have len: "length as = length bs" using as by simp
  show ?thesis
  proof (cases "num_sub v mn")
    case (Fin x)
    show ?thesis
    proof (cases "0 \<le> x \<and> x < of_nat (length bs) \<and> is_int x")
      case True
      let ?k = "nat \<lfloor>x\<rfloor>"
      from True have k: "?k < length bs" by (simp add: floor_less_iff nat_less_iff)
      then have ak: "as ! ?k = length h + ?k" using as by simp
      have cell: "cell_at ?H (length h + ?k) = Some (Bin_cell (bs ! ?k))"
        using k by (simp add: cell_at_def nth_append)
      have upd: "?H[length h + ?k := Bin_cell c] = h @ map Bin_cell (bs[?k := c]) @ [Bins_cell as]" for c
        using k by (simp add: list_update_append map_update)
      from True Inr Fin arr len ak cell upd show ?thesis
        by (simp add: scale_tally_heap_def scale_tally_def)
    next
      case False
      with Inr Fin arr len show ?thesis
        by (auto simp: scale_tally_heap_def scale_tally_def)
    qed
  qed (use Inr arr len in \<open>simp_all add: scale_tally_heap_def scale_tally_def\<close>)
qed

lemma scale_loop_on_heap:
  assumes as: "as = [length h..<length h + length bs]"
  shows "\<exists>bs'. length bs' = length bs
      \<and> each_on_heap (scale_tally_heap P mn qi (length h + length bs))
            (h @ map Bin_cell bs @ [Bins_cell as]) R
        = ((case for_each (scale_tally P mn qi) bs R of Inl e \<Rightarrow> Some e | Inr _ \<Rightarrow> None),
           h @ map Bin_cell bs' @ [Bins_cell as])
      \<and> (\<forall>bs''. for_each (scale_tally P mn qi) bs R = Inr bs'' \<longrightarrow> bs' = bs'')"
  using as
proof (induction R arbitrary: bs)
  case Nil
  then show ?case by simp
next
  case (Cons r R)
  show ?case
  proof (cases "scale_tally P mn qi bs r")
    case (Inl e)
    with Cons.prems show ?thesis by (auto simp: scale_step_on_heap)
  next
    case (Inr bs1)
    then have l: "length bs1 = length bs" by (rule scale_tally_length)
    with Cons.prems have as1: "as = [length h..<length h + length bs1]" by simp
    from Cons.IH [OF as1] obtain bs' where
        "length bs' = length bs1"
        "each_on_heap (scale_tally_heap P mn qi (length h + length bs1))
            (h @ map Bin_cell bs1 @ [Bins_cell as]) R
          = ((case for_each (scale_tally P mn qi) bs1 R of Inl e \<Rightarrow> Some e | Inr _ \<Rightarrow> None),
             h @ map Bin_cell bs' @ [Bins_cell as])"
        "\<forall>bs''. for_each (scale_tally P mn qi) bs1 R = Inr bs'' \<longrightarrow> bs' = bs''"
      by blast
    with Inr l Cons.prems show ?thesis
      by (auto simp: scale_step_on_heap)
  qed
qed

lemma scale_summary_on_heap:
  "\<exists>g. scale_summary_heap P R q qi h = (scale_summary P R q qi, h @ g)"
proof (cases "to_number P (nullish_or (get_field q ''min'') (JNum (Fin 1)))")
  case (Inl e)
  then show ?thesis by (simp add: scale_summary_heap_def scale_summary_def)
next
  case mn: (Inr mn)
  show ?thesis
  proof (cases "to_number P (nullish_or (get_field q ''max'') (JNum (Fin 5)))")
    case (Inl e)
    with mn show ?thesis by (simp add: scale_summary_heap_def scale_summary_def)
  next
    case mx: (Inr mx)
    show ?thesis
    proof (cases "array_from_length (num_add (num_sub mx mn) (Fin 1))")
      case (Inl e)
      with mn mx show ?thesis by (simp add: scale_summary_heap_def scale_summary_def)
    next
      case n: (Inr n)
      let ?bs = "fresh_bins P mn n"
      let ?as = "[length h..<length h + length ?bs]"
      from scale_loop_on_heap [of ?as h ?bs P mn qi R] obtain bs' where
          len: "length bs' = length ?bs"
        and loop: "each_on_heap (scale_tally_heap P mn qi (length h + length ?bs))
              (h @ map Bin_cell ?bs @ [Bins_cell ?as]) R
            = ((case for_each (scale_tally P mn qi) ?bs R of Inl e \<Rightarrow> Some e | Inr _ \<Rightarrow> None),
               h @ map Bin_cell bs' @ [Bins_cell ?as])"
        and fin: "\<forall>bs''. for_each (scale_tally P mn qi) ?bs R = Inr bs'' \<longrightarrow> bs' = bs''"
        by blast
      have start: "alloc_bins h ?bs = (?as, h @ map Bin_cell ?bs)"
        by (rule alloc_bins_layout)
      have arr: "cell_at (h @ map Bin_cell bs' @ [Bins_cell ?as]) (length h + length ?bs)
          = Some (Bins_cell ?as)"
        using len by (simp add: cell_at_def nth_append)
      have rd: "read_bins (h @ map Bin_cell bs' @ [Bins_cell ?as]) ?as = Some bs'"
        using read_bins_layout [of h bs' "[Bins_cell ?as]" 0] len by simp
      show ?thesis
      proof (cases "for_each (scale_tally P mn qi) ?bs R")
        case (Inl e)
        with mn mx n start loop show ?thesis
          by (simp add: scale_summary_heap_def scale_summary_def alloc_def)
      next
        case (Inr bins)
        with fin have "bs' = bins" by simp
        with Inr mn mx n start loop arr rd show ?thesis
          by (simp add: scale_summary_heap_def scale_summary_def alloc_def)
      qed
    qed
  qed
qed

lemma summarize_on_heap:
  "\<exists>g. summarize_heap P R q qi h = (summarize P R q qi, h @ g)"
  using mcq_summary_on_heap [of R q qi h] scale_summary_on_heap [of P R q qi h]
  by (auto simp: summarize_heap_def summarize_def)

lemma map_on_heap_pure:
  assumes "\<And>h x. \<exists>g. f h x = (f0 x, h @ g)"
  shows "\<exists>g. map_on_heap f h xs = (map_e f0 xs, h @ g)"
proof (induction xs arbitrary: h)
  case Nil
  then show ?case by simp
next
  case (Cons x xs)
  from assms [of h x] obtain g1 where g1: "f h x = (f0 x, h @ g1)" by blast
  from Cons.IH [of "h @ g1"] obtain g2 where
      g2: "map_on_heap f (h @ g1) xs = (map_e f0 xs, (h @ g1) @ g2)" by blast
  show ?case
  proof (cases "f0 x")
    case (Inl e)
    with g1 show ?thesis by auto
  next
    case (Inr y)
    with g1 g2 show ?thesis by (cases "map_e f0 xs") auto
  qed
qed

lemma analytics_on_heap:
  "\<exists>g. analytics_heap P qs R h = (analytics P qs R, h @ g)"
proof -
  have "\<exists>g. (\<lambda>h (q, qi). summarize_heap P R q qi h) h x
          = ((\<lambda>(q, qi). summarize P R q qi) x, h @ g)" for h x
    using summarize_on_heap [of P R "fst x" "snd x" h] by (simp add: case_prod_beta)
  from map_on_heap_pure [of "\<lambda>h (q, qi). summarize_heap P R q qi h"
      "\<lambda>(q, qi). summarize P R q qi", OF this]
  show ?thesis by (simp add: analytics_heap_def analytics_def)
qed

lemma run_analytics_result:
  "\<exists>g. run_analytics P st qs R
      = ((case analytics P qs R of Inl e \<Rightarrow> Threw e | Inr out \<Rightarrow> Ok out),
         st\<lparr>heap := heap st @ g\<rparr>)"
proof -
  from analytics_on_heap [of P qs R "heap st"] obtain g where
    "analytics_heap P qs R (heap st) = (analytics P qs R, heap st @ g)" by blast
  then show ?thesis by (cases "analytics P qs R") (auto simp: run_analytics_def)
qed

lemma get_analytics_heap_grows:
  "\<exists>g. snd (get_analytics_heap P st i) = st\<lparr>heap := heap st @ g\<rparr>
      \<and> fst (get_analytics_heap P (st\<lparr>heap := heap st @ g\<rparr>) i) = fst (get_analytics_heap P st i)"
proof -
  have same: "\<exists>g. st = st\<lparr>heap := heap st @ g\<rparr>" by (rule exI [of _ "[]"]) simp
  have keep: ?thesis if "snd (get_analytics_heap P st i) = st"
    using that by (intro exI [of _ "[]"]) simp
  show ?thesis
  proof (cases "plain_get (survey_table st) i")
    case Missing
    then show ?thesis by (intro keep) (simp add: get_analytics_heap_def)
  next
    case Inherited
    then show ?thesis by (intro keep) (simp add: get_analytics_heap_def)
  next
    case (Own sa)
    show ?thesis
    proof (cases "\<exists>s. cell_at (heap st) sa = Some (Survey_cell s)")
      case False
      with Own show ?thesis
        by (intro keep) (auto simp: get_analytics_heap_def split: option.splits cell.splits)
    next
      case True
      then obtain s where s: "cell_at (heap st) sa = Some (Survey_cell s)" by blast
      then have s': "cell_at (heap st @ g) sa = Some (Survey_cell s)" for g
        by (rule cell_at_Some_old)
      show ?thesis
      proof (cases "plain_get (response_table st) i")
        case Missing
        from run_analytics_result [of P st "questions s" "[]"] obtain g where
          g: "run_analytics P st (questions s) []
            = ((case analytics P (questions s) [] of Inl e \<Rightarrow> Threw e | Inr out \<Rightarrow> Ok out),
               st\<lparr>heap := heap st @ g\<rparr>)" by blast
        from run_analytics_result [of P "st\<lparr>heap := heap st @ g\<rparr>" "questions s" "[]"]
        obtain g' where
          g': "run_analytics P (st\<lparr>heap := heap st @ g\<rparr>) (questions s) []
            = ((case analytics P (questions s) [] of Inl e \<Rightarrow> Threw e | Inr out \<Rightarrow> Ok out),
               st\<lparr>heap := (heap st @ g) @ g'\<rparr>)" by auto
        from Own Missing s s' g g' show ?thesis
          by (intro exI [of _ g]) (simp add: get_analytics_heap_def)
      next
        case Inherited
        show ?thesis
        proof (cases "questions s")
          case Nil
          with Own Inherited s show ?thesis
            by (intro keep) (simp add: get_analytics_heap_def)
        next
          case (Cons q qs)
          from summarize_on_heap [of P "[]" q 0 "heap st"] obtain g where
            g: "summarize_heap P [] q 0 (heap st) = (summarize P [] q 0, heap st @ g)" by blast
          from summarize_on_heap [of P "[]" q 0 "heap st @ g"] obtain g' where
            g': "summarize_heap P [] q 0 (heap st @ g) = (summarize P [] q 0, (heap st @ g) @ g')"
            by blast
          from Own Inherited s s' Cons g g' show ?thesis
            by (intro exI [of _ g]) (simp add: get_analytics_heap_def split: sum.splits)
        qed
      next
        case (Own ra)
        show ?thesis
        proof (cases "\<exists>R. cell_at (heap st) ra = Some (Responses_cell R)")
          case False
          with \<open>plain_get (survey_table st) i = Own sa\<close> Own s show ?thesis
            by (intro keep) (auto simp: get_analytics_heap_def split: option.splits cell.splits)
        next
          case True
          then obtain R where R: "cell_at (heap st) ra = Some (Responses_cell R)" by blast
          then have R': "cell_at (heap st @ g) ra = Some (Responses_cell R)" for g
            by (rule cell_at_Some_old)
          from run_analytics_result [of P st "questions s" R] obtain g where
            g: "run_analytics P st (questions s) R
              = ((case analytics P (questions s) R of Inl e \<Rightarrow> Threw e | Inr out \<Rightarrow> Ok out),
                 st\<lparr>heap := heap st @ g\<rparr>)" by blast
          from run_analytics_result [of P "st\<lparr>heap := heap st @ g\<rparr>" "questions s" R]
          obtain g' where
            g': "run_analytics P (st\<lparr>heap := heap st @ g\<rparr>) (questions s) R
              = ((case analytics P (questions s) R of Inl e \<Rightarrow> Threw e | Inr out \<Rightarrow> Ok out),
                 st\<lparr>heap := (heap st @ g) @ g'\<rparr>)" by auto
          from \<open>plain_get (survey_table st) i = Own sa\<close> Own s s' R R' g g' show ?thesis
            by (intro exI [of _ g]) (simp add: get_analytics_heap_def)
        qed
      qed
    qed
  qed
qed


text \<open>
  A run on a heap of two cells: a survey with one multiple-choice question and one
  response. The reply counts the answer, and the heap has grown by the \<^verbatim>\<open>counts\<close> array.
\<close>

lemma analytics_on_heap_example:
  "get_analytics_heap P
     \<lparr>heap = [Survey_cell \<lparr>sid = ''1a2b3c4d'', title = JStr ''T'',
                 questions = [JObj [(''type'', JStr ''mcq''), (''options'', JArr [JStr ''A'', JStr ''B''])]]\<rparr>,
              Responses_cell [\<lparr>ts = 1, answers = [JObj [(''answer'', JStr ''B'')]]\<rparr>]],
      survey_table = [''1a2b3c4d'' \<mapsto> 0], response_table = [''1a2b3c4d'' \<mapsto> 1]\<rparr>
     ''1a2b3c4d''
   = (Ok [Mcq JUndefined [''A'', ''B''] [0, 1]],
      \<lparr>heap = [Survey_cell \<lparr>sid = ''1a2b3c4d'', title = JStr ''T'',
                 questions = [JObj [(''type'', JStr ''mcq''), (''options'', JArr [JStr ''A'', JStr ''B''])]]\<rparr>,
              Responses_cell [\<lparr>ts = 1, answers = [JObj [(''answer'', JStr ''B'')]]\<rparr>],
              Counts_cell [0, 1]],
      survey_table = [''1a2b3c4d'' \<mapsto> 0], response_table = [''1a2b3c4d'' \<mapsto> 1]\<rparr>)"
  by (simp add: get_analytics_heap_def plain_get_def cell_at_def run_analytics_def
      analytics_heap_def summarize_heap_def mcq_summary_heap_def mcq_labels_def alloc_def
      mcq_tally_heap_def answer_at_def falsy_or_def trim_def is_ws_def)

text \<open>
  C6. The analytics handler changes neither \<^verbatim>\<open>DB.surveys\<close> nor \<^verbatim>\<open>DB.responses\<close> nor any
  object that existed when it was called: the heap it leaves is the heap it found,
  followed by the objects it created. Called again on the state it left, it gives the
  same reply.
\<close>

theorem analytics_writes_fresh_cells_only:
  "survey_table (snd (get_analytics_heap P st i)) = survey_table st
   \<and> response_table (snd (get_analytics_heap P st i)) = response_table st
   \<and> take (length (heap st)) (heap (snd (get_analytics_heap P st i))) = heap st
   \<and> fst (get_analytics_heap P (snd (get_analytics_heap P st i)) i)
       = fst (get_analytics_heap P st i)"
proof -
  from get_analytics_heap_grows [of P st i] obtain g where
      g: "snd (get_analytics_heap P st i) = st\<lparr>heap := heap st @ g\<rparr>"
    and again: "fst (get_analytics_heap P (st\<lparr>heap := heap st @ g\<rparr>) i)
        = fst (get_analytics_heap P st i)"
    by blast
  from g again show ?thesis by simp
qed

end
